theory Spec2Isabelle
  imports Main "HOL-Library.AList" "HOL-Library.Monad_Syntax"
begin

section \<open>The chat server of cmd/cryptodog-server/server.go\<close>

text \<open>
  The server keeps a registry \<open>allRooms\<close> of rooms, each with a map \<open>Users\<close> from
  nickname to the user's connection. The handlers \<open>handleJoinMessage\<close>,
  \<open>handleLeaveMessage\<close>, \<open>handleGroupMessage\<close> and \<open>handlePrivateMessage\<close> are called
  from the receive loop of \<open>ws\<close>, one per inbound message, and \<open>handleLeaveMessage\<close>
  also from the last lines of \<open>ws\<close>.

  The embedding is sequential: a handler is a function from the state before the call
  to the state after it, and the routines of the connections take turns between the
  calls (\<open>run\<close>). Go's pointers are addresses into two stores (\<open>users\<close> for
  \<open>*User\<close>, \<open>rooms\<close> for \<open>*Room\<close>), so that two references to one room see the same
  membership. Go's maps are association lists, read with \<open>map_of\<close>, written with
  \<open>AList.update\<close> and \<open>AList.delete\<close>; a \<open>range\<close> loop visits the entries in the order of
  the list, which stands for the order Go happens to choose. Every \<open>Lock\<close>, \<open>Unlock\<close>
  and every \<open>sendMessage\<close> that returns is recorded, in program order, in the field
  \<open>trace\<close> of the state, a send with its result.
\<close>

subsection \<open>Messages\<close>

text \<open>
  Modelled from the spec: package \<open>proto\<close> (the message structs and the type tags) is
  imported by server.go; its own source is not among the files verified. The constructors are
  the struct types server.go builds, with the fields it names; a field that a struct
  literal of the source leaves out has Go's zero value, the empty string.
  \<^item> \<open>JoinMessage Room Name\<close>
  \<^item> \<open>LeaveMessage Name\<close>
  \<^item> \<open>GroupMessage From Text\<close>
  \<^item> \<open>PrivateMessage From To Text\<close>
  \<^item> \<open>RosterMessage Users\<close>
  \<^item> \<open>ErrorMessage Error\<close>
\<close>

datatype SpecificMessage =
    JoinMessage string string
  | LeaveMessage string
  | GroupMessage string string
  | PrivateMessage string string string
  | RosterMessage "string list"
  | ErrorMessage string

text \<open>
  Modelled from the spec: the tag \<open>msg.Type\<close> of an inbound \<open>proto.Message\<close>. The source
  names four constants; \<open>TypeOther t\<close> is any tag that is none of them.
\<close>

datatype MessageType =
    TypeJoinMessage
  | TypeLeaveMessage
  | TypeGroupMessage
  | TypePrivateMessage
  | TypeOther string

record 'raw Message =
  Type :: MessageType
  Raw :: 'raw

text \<open>
  Modelled from the spec: \<open>json.Unmarshal(msg.Raw, &decoded)\<close> for the three payloads the
  receive loop decodes. Each decoder yields the fields the handler reads, or \<open>None\<close>
  when \<open>Unmarshal\<close> returns an error.
\<close>

record 'raw Unmarshal =
  decodeJoin :: "'raw \<Rightarrow> (string \<times> string) option"
  decodeGroup :: "'raw \<Rightarrow> string option"
  decodePrivate :: "'raw \<Rightarrow> (string \<times> string) option"

subsection \<open>Users, rooms and the state of the server\<close>

type_synonym uref = nat
type_synonym rref = nat

text \<open>
  The two channels of a \<open>User\<close>, \<open>Sendc\<close> and \<open>Leavec\<close>, are read through what the
  user's writer routine (the second goroutine of \<open>ws\<close>) is doing with them:
  \<^item> \<open>Receiving\<close>: it is in its \<open>select\<close> and takes the next message from \<open>Sendc\<close>;
  \<^item> \<open>Closed\<close>: it has closed \<open>Leavec\<close> and returned (the case \<open>done\<close>);
  \<^item> \<open>Stuck\<close>: it has returned after a failed \<open>WriteJSON\<close> without closing \<open>Leavec\<close>,
    so that nothing is received from \<open>Sendc\<close> any more and \<open>Leavec\<close> stays open.
  The field \<open>Sendc\<close> of the record holds this state.
\<close>

datatype listener = Receiving | Closed | Stuck

record User =
  Name :: string
  Sendc :: listener

record Room =
  Name :: string
  Users :: "(string \<times> uref) list"

datatype mutex = allRoomsMutex | Mutex rref

datatype event =
    Lock mutex
  | Unlock mutex
  | Send uref SpecificMessage bool

record state =
  users :: "uref \<Rightarrow> User"
  rooms :: "rref \<Rightarrow> Room"
  nextRoom :: rref
  allRooms :: "(string \<times> rref) list"
  trace :: "event list"

definition emit :: "event \<Rightarrow> state \<Rightarrow> state" where
  "emit e s = s\<lparr>trace := trace s @ [e]\<rparr>"

definition set_Users :: "rref \<Rightarrow> (string \<times> uref) list \<Rightarrow> state \<Rightarrow> state" where
  "set_Users r us s = s\<lparr>rooms := (rooms s)(r := (rooms s r)\<lparr>Users := us\<rparr>)\<rparr>"

definition set_Name :: "uref \<Rightarrow> string \<Rightarrow> state \<Rightarrow> state" where
  "set_Name u n s = s\<lparr>users := (users s)(u := (users s u)\<lparr>User.Name := n\<rparr>)\<rparr>"

text \<open>\<open>&Room{Name: n, Users: us}\<close>: a room at an address no reference holds yet.\<close>

definition new_Room :: "string \<Rightarrow> (string \<times> uref) list \<Rightarrow> state \<Rightarrow> rref \<times> state" where
  "new_Room n us s =
     (nextRoom s,
      s\<lparr>rooms := (rooms s)(nextRoom s := \<lparr>Room.Name = n, Users = us\<rparr>),
        nextRoom := Suc (nextRoom s)\<rparr>)"

subsection \<open>sendMessage and broadcastMessage\<close>

text \<open>
  \<open>sendMessage\<close> is a \<open>select\<close> over a send on \<open>user.Sendc\<close> and a receive from
  \<open>user.Leavec\<close>. It returns true when the writer takes the message, false when
  \<open>Leavec\<close> is closed, and does not return when neither can ever proceed: the result
  \<open>None\<close>. A handler that calls it inherits the \<open>None\<close>.
\<close>

definition sendMessage :: "uref \<Rightarrow> SpecificMessage \<Rightarrow> state \<Rightarrow> (bool \<times> state) option" where
  "sendMessage user msg s =
     (case Sendc (users s user) of
        Receiving \<Rightarrow> Some (True, emit (Send user msg True) s)
      | Closed \<Rightarrow> Some (False, emit (Send user msg False) s)
      | Stuck \<Rightarrow> None)"

fun broadcastMessage :: "(string \<times> uref) list \<Rightarrow> SpecificMessage \<Rightarrow> state \<Rightarrow> state option" where
  "broadcastMessage [] msg s = Some s"
| "broadcastMessage ((name, user) # rest) msg s =
     (case sendMessage user msg s of
        None \<Rightarrow> None
      | Some (_, s') \<Rightarrow> broadcastMessage rest msg s')"

subsection \<open>The handlers\<close>

text \<open>
  A handler takes the fields it reads of the decoded message (\<open>mRoom\<close> and \<open>mName\<close>
  for \<open>msg.Room\<close> and \<open>msg.Name\<close>, \<open>mText\<close> for \<open>msg.Text\<close>, \<open>mTo\<close> for \<open>msg.To\<close>), the
  addresses \<open>room\<close> and \<open>user\<close>, and the state. Its result is \<open>None\<close> when the call
  does not return, because a \<open>sendMessage\<close> in it does not; otherwise it is the value
  returned, with the state after the call. An error is its text, as \<open>fmt.Errorf\<close> makes
  it. \<open>handleJoinMessage\<close> returns \<open>Inl\<close> of the error or \<open>Inr\<close> of the room; a result of
  type \<open>error option\<close> is Go's \<open>error\<close>, with \<open>None\<close> for nil.
\<close>

type_synonym error = string

text \<open>Lines 232 to 250 of \<open>handleJoinMessage\<close>, which both branches of the lookup reach.\<close>

definition join_announce :: "string \<Rightarrow> uref \<Rightarrow> rref \<Rightarrow> state \<Rightarrow> ((error + rref) \<times> state) option" where
  "join_announce mName user room s =
     (let s1 = set_Name user mName s;
          curUsers = filter (\<lambda>name. name \<noteq> User.Name (users s1 user))
                       (map fst (Users (rooms s1 room)))
      in do {
        (_, s2) \<leftarrow> sendMessage user (RosterMessage curUsers) s1;
        s3 \<leftarrow> broadcastMessage (Users (rooms s2 room)) (JoinMessage [] mName) s2;
        Some (Inr room, emit (Unlock allRoomsMutex) s3)
      })"

definition handleJoinMessage :: "string \<Rightarrow> string \<Rightarrow> uref \<Rightarrow> state \<Rightarrow> ((error + rref) \<times> state) option" where
  "handleJoinMessage mRoom mName user s =
     (if length mRoom = 0 \<or> length mRoom > 128 then
        Some (Inl ''Room name must be between 1 and 128 characters.'', s)
      else if length mName = 0 \<or> length mName > 128 then
        Some (Inl ''Nickname must be between 1 and 128 characters.'', s)
      else
        let s1 = emit (Lock allRoomsMutex) s in
        case map_of (allRooms s1) mRoom of
          Some r \<Rightarrow>
            let s2 = emit (Lock (Mutex r)) s1 in
            if map_of (Users (rooms s2 r)) mName \<noteq> None then
              Some (Inl ''Nickname in use.'',
                    emit (Unlock allRoomsMutex) (emit (Unlock (Mutex r)) s2))
            else
              let s3 = set_Users r (AList.update mName user (Users (rooms s2 r))) s2;
                  s4 = emit (Unlock (Mutex r)) s3
              in join_announce mName user r s4
        | None \<Rightarrow>
            let (room, s2) = new_Room mRoom (AList.update mName user []) s1;
                s3 = s2\<lparr>allRooms := AList.update mRoom room (allRooms s2)\<rparr>
            in join_announce mName user room s3)"

definition handleLeaveMessage :: "rref \<Rightarrow> uref \<Rightarrow> state \<Rightarrow> state option" where
  "handleLeaveMessage room user s =
     (let s1 = emit (Lock allRoomsMutex) s;
          s2 = emit (Lock (Mutex room)) s1;
          s3 = set_Users room (AList.delete (User.Name (users s2 user)) (Users (rooms s2 room))) s2
      in do {
        s4 \<leftarrow> broadcastMessage (Users (rooms s3 room)) (LeaveMessage (User.Name (users s3 user))) s3;
        let s5 = (if length (Users (rooms s4 room)) = 0
                  then s4\<lparr>allRooms := AList.delete (Room.Name (rooms s4 room)) (allRooms s4)\<rparr>
                  else s4);
        Some (emit (Unlock allRoomsMutex) (emit (Unlock (Mutex room)) s5))
      })"

definition handleGroupMessage :: "string \<Rightarrow> rref \<Rightarrow> uref \<Rightarrow> state \<Rightarrow> (error option \<times> state) option" where
  "handleGroupMessage mText room user s =
     (let s1 = emit (Lock (Mutex room)) s
      in do {
        s2 \<leftarrow> broadcastMessage (Users (rooms s1 room))
                (GroupMessage (User.Name (users s1 user)) mText) s1;
        Some (None, emit (Unlock (Mutex room)) s2)
      })"

definition handlePrivateMessage :: "string \<Rightarrow> string \<Rightarrow> rref \<Rightarrow> uref \<Rightarrow> state \<Rightarrow> (error option \<times> state) option" where
  "handlePrivateMessage mTo mText room user s =
     (let s1 = emit (Lock (Mutex room)) s in
      case map_of (Users (rooms s1 room)) mTo of
        Some to \<Rightarrow> do {
          (ok, s2) \<leftarrow> sendMessage to (PrivateMessage (User.Name (users s1 user)) [] mText) s1;
          if \<not> ok then
            Some (Some ''Failed to deliver private message to recipient.'',
                  emit (Unlock (Mutex room)) s2)
          else Some (None, emit (Unlock (Mutex room)) s2)
        }
      | None \<Rightarrow> Some (Some ''Recipient not in room.'', emit (Unlock (Mutex room)) s1))"

subsection \<open>The receive loop of ws\<close>

text \<open>
  The first goroutine of \<open>ws\<close> keeps \<open>room\<close> and \<open>hasJoined\<close> across the iterations of
  its loop; \<open>user\<close> is the address of the connection's \<open>User\<close>. One iteration, after
  \<open>readMessage\<close> has returned a message, is \<open>ws_recv\<close>. It ends in one of three ways:
  the loop goes on (\<open>Continue\<close>), the goroutine puts an error on \<open>errc\<close> and returns
  (\<open>Return\<close>), or a handler is entered with a nil \<open>room\<close> (\<open>NilDereference\<close>).
\<close>

record session =
  room :: "rref option"
  hasJoined :: bool

datatype fatal =
    UnmarshalFailed
  | UnknownMessageType MessageType
  | SendErrorFailed error

datatype outcome =
    Continue session
  | Return fatal session
  | NilDereference

text \<open>Lines 155 to 163: an error left in \<open>err\<close> by the switch is passed to the client.\<close>

definition pass_error :: "uref \<Rightarrow> error option \<Rightarrow> session \<Rightarrow> state \<Rightarrow> (outcome \<times> state) option" where
  "pass_error user err sess s =
     (case err of
        None \<Rightarrow> Some (Continue sess, s)
      | Some e \<Rightarrow> do {
          (ok, s') \<leftarrow> sendMessage user (ErrorMessage e) s;
          if \<not> ok then Some (Return (SendErrorFailed e) sess, s')
          else Some (Continue sess, s')
        })"

definition ws_recv :: "'raw Unmarshal \<Rightarrow> uref \<Rightarrow> 'raw Message \<Rightarrow> session \<Rightarrow> state \<Rightarrow> (outcome \<times> state) option" where
  "ws_recv js user msg sess s =
     (case Type msg of
        TypeJoinMessage \<Rightarrow>
          if hasJoined sess then
            pass_error user (Some ''You have already joined a room.'') sess s
          else (case decodeJoin js (Raw msg) of
                  None \<Rightarrow> Some (Return UnmarshalFailed sess, s)
                | Some (mRoom, mName) \<Rightarrow> do {
                    (res, s') \<leftarrow> handleJoinMessage mRoom mName user s;
                    case res of
                      Inl e \<Rightarrow> pass_error user (Some e) (sess\<lparr>room := None\<rparr>) s'
                    | Inr r \<Rightarrow>
                        pass_error user None (sess\<lparr>room := Some r, hasJoined := True\<rparr>) s'
                  })
      | TypeLeaveMessage \<Rightarrow>
          if \<not> hasJoined sess then
            pass_error user (Some ''You need to join a room to do that.'') sess s
          else (case room sess of
                  None \<Rightarrow> Some (NilDereference, s)
                | Some r \<Rightarrow> do {
                    s' \<leftarrow> handleLeaveMessage r user s;
                    pass_error user None (sess\<lparr>hasJoined := False, room := None\<rparr>)
                      (set_Name user [] s')
                  })
      | TypeGroupMessage \<Rightarrow>
          if \<not> hasJoined sess then
            pass_error user (Some ''You need to join a room to do that.'') sess s
          else (case decodeGroup js (Raw msg) of
                  None \<Rightarrow> Some (Return UnmarshalFailed sess, s)
                | Some mText \<Rightarrow>
                    (case room sess of
                       None \<Rightarrow> Some (NilDereference, s)
                     | Some r \<Rightarrow> do {
                         (err, s') \<leftarrow> handleGroupMessage mText r user s;
                         pass_error user err sess s'
                       }))
      | TypePrivateMessage \<Rightarrow>
          if \<not> hasJoined sess then
            pass_error user (Some ''You need to join a room to do that.'') sess s
          else (case decodePrivate js (Raw msg) of
                  None \<Rightarrow> Some (Return UnmarshalFailed sess, s)
                | Some (mTo, mText) \<Rightarrow>
                    (case room sess of
                       None \<Rightarrow> Some (NilDereference, s)
                     | Some r \<Rightarrow> do {
                         (err, s') \<leftarrow> handlePrivateMessage mTo mText r user s;
                         pass_error user err sess s'
                       }))
      | TypeOther t \<Rightarrow> Some (Return (UnknownMessageType (TypeOther t)) sess, s))"

subsection \<open>Notions used in the statements\<close>

text \<open>
  The event a call \<open>sendMessage(user, msg)\<close> adds to the trace when it is made in a
  state whose users are those of \<open>s\<close>, for an entry \<open>(name, user)\<close> of a membership map.
\<close>

definition attempt :: "state \<Rightarrow> SpecificMessage \<Rightarrow> string \<times> uref \<Rightarrow> event" where
  "attempt s msg p = Send (snd p) msg (Sendc (users s (snd p)) = Receiving)"

text \<open>
  Every send to a user of a membership map resolves (the message is taken, or \<open>Leavec\<close>
  is closed): no writer among them has gone without closing \<open>Leavec\<close>.
\<close>

definition resolves :: "state \<Rightarrow> (string \<times> uref) list \<Rightarrow> bool" where
  "resolves s us = list_all (\<lambda>p. Sendc (users s (snd p)) \<noteq> Stuck) us"

text \<open>
  What a successful \<open>handleJoinMessage\<close> adds to the trace from line 241 on, for the
  membership \<open>us\<close> of the room joined: the roster to the joining user, the announcement
  to every member, and the deferred unlock of the registry.
\<close>

definition join_events :: "state \<Rightarrow> string \<Rightarrow> uref \<Rightarrow> (string \<times> uref) list \<Rightarrow> event list" where
  "join_events s mName user us =
     Send user (RosterMessage (filter (\<lambda>name. name \<noteq> mName) (map fst us)))
       (Sendc (users s user) = Receiving) #
     map (attempt s (JoinMessage [] mName)) us @ [Unlock allRoomsMutex]"

text \<open>The events a call added to the trace, and the sends of one kind of message among events.\<close>

definition since :: "state \<Rightarrow> state \<Rightarrow> event list" where
  "since s s' = drop (length (trace s)) (trace s')"

fun is_roster :: "event \<Rightarrow> bool" where
  "is_roster (Send _ (RosterMessage _) _) = True"
| "is_roster _ = False"

fun is_join :: "event \<Rightarrow> bool" where
  "is_join (Send _ (JoinMessage _ _) _) = True"
| "is_join _ = False"

text \<open>
  The membership of the room registered under a name; empty when there is no such room.
\<close>

definition occupants :: "state \<Rightarrow> string \<Rightarrow> (string \<times> uref) list" where
  "occupants s mRoom =
     (case map_of (allRooms s) mRoom of None \<Rightarrow> [] | Some r \<Rightarrow> Users (rooms s r))"

text \<open>
  The locking discipline, checked along a list of events with the mutexes held so far
  (the last acquired first): \<open>allRoomsMutex\<close> is acquired only while no mutex is held, a
  room's mutex only while it is not held already, a mutex is released only when it is
  the last one acquired, and at the end none is held.
\<close>

fun lock_order :: "mutex list \<Rightarrow> event list \<Rightarrow> bool" where
  "lock_order held [] = (held = [])"
| "lock_order held (Lock allRoomsMutex # es) = (held = [] \<and> lock_order [allRoomsMutex] es)"
| "lock_order held (Lock (Mutex r) # es) = (Mutex r \<notin> set held \<and> lock_order (Mutex r # held) es)"
| "lock_order held (Unlock m # es) =
     (case held of [] \<Rightarrow> False | h # rest \<Rightarrow> h = m \<and> lock_order rest es)"
| "lock_order held (Send _ _ _ # es) = lock_order held es"

fun is_lock :: "event \<Rightarrow> bool" where
  "is_lock (Send _ _ _) = False"
| "is_lock _ = True"

text \<open>
  The lifecycle of rooms. The keys of \<open>allRooms\<close> are distinct (it is a map); every
  entry leads to a room that has been allocated and carries the key as its \<open>Name\<close>; and
  a room that has been allocated is a value of \<open>allRooms\<close> exactly when its \<open>Users\<close> is
  not empty.
\<close>

definition lifecycle :: "state \<Rightarrow> bool" where
  "lifecycle s \<longleftrightarrow>
     distinct (map fst (allRooms s)) \<and>
     list_all (\<lambda>(n, r). r < nextRoom s \<and> Room.Name (rooms s r) = n) (allRooms s) \<and>
     list_all (\<lambda>r. (r \<in> snd ` set (allRooms s)) = (Users (rooms s r) \<noteq> []))
       [0..<nextRoom s]"

subsection \<open>The states of the scenarios\<close>

text \<open>
  \<open>start\<close> is the server before any join: \<open>allRooms\<close> is the empty map, and every
  connection's \<open>User\<close> has the empty name and a writer that takes messages.
  In \<open>lobby\<close>, the users at addresses 2 and 3 have joined room "lobby" as "alice" and "bob".
\<close>

definition start :: state where
  "start = \<lparr>users = (\<lambda>_. \<lparr>User.Name = [], Sendc = Receiving\<rparr>),
            rooms = (\<lambda>_. \<lparr>Room.Name = [], Users = []\<rparr>),
            nextRoom = 0, allRooms = [], trace = []\<rparr>"

definition lobby :: state where
  "lobby = \<lparr>users = (\<lambda>_. \<lparr>User.Name = [], Sendc = Receiving\<rparr>)
              (2 := \<lparr>User.Name = ''alice'', Sendc = Receiving\<rparr>,
               3 := \<lparr>User.Name = ''bob'', Sendc = Receiving\<rparr>),
            rooms = (\<lambda>_. \<lparr>Room.Name = [], Users = []\<rparr>)
              (0 := \<lparr>Room.Name = ''lobby'', Users = [(''alice'', 2), (''bob'', 3)]\<rparr>),
            nextRoom = 1, allRooms = [(''lobby'', 0)], trace = []\<rparr>"

text \<open>
  In the scenarios the raw part of an inbound message is the payload itself, and
  \<open>unmarshal\<close> reads the fields the handlers use from it.
\<close>

definition unmarshal :: "SpecificMessage Unmarshal" where
  "unmarshal =
     \<lparr>decodeJoin = (\<lambda>m. case m of JoinMessage mRoom mName \<Rightarrow> Some (mRoom, mName) | _ \<Rightarrow> None),
      decodeGroup = (\<lambda>m. case m of GroupMessage _ mText \<Rightarrow> Some mText | _ \<Rightarrow> None),
      decodePrivate = (\<lambda>m. case m of PrivateMessage _ mTo mText \<Rightarrow> Some (mTo, mText)
                                   | _ \<Rightarrow> None)\<rparr>"

subsection \<open>Runs of the server\<close>

text \<open>
  A call of \<open>ws\<close> is three routines that share the variables \<open>room\<close> and \<open>hasJoined\<close>
  (\<open>vars\<close>) and the channel \<open>errc\<close>:
  \<^item> the receive loop (\<open>reader\<close>), which is at \<open>readMessage\<close> (\<open>AtRead\<close>), holds a message
    it has read and not yet handled (\<open>Got\<close>), or has put an error on \<open>errc\<close> and returned
    (\<open>Returned\<close>);
  \<^item> the writer, whose state is the field \<open>Sendc\<close> of the connection's \<open>User\<close>;
  \<^item> the body of \<open>ws\<close> itself (\<open>ending\<close>), which waits at line 188 for an error on \<open>errc\<close>
    (\<open>Waiting\<close>), has taken one and sent \<open>done\<close> (\<open>Signalled\<close>, at line 191), or has run
    lines 191 to 193 and returned, which closes the connection (\<open>Finished\<close>).
  The field \<open>errc\<close> says that an error has been put on the channel. The connection of
  the user at address \<open>u\<close> is \<open>cs u\<close>.
\<close>

datatype 'raw reader = AtRead | Got "'raw Message" | Returned

datatype ending = Waiting | Signalled | Finished

record 'raw conn =
  vars :: session
  reader :: "'raw reader"
  errc :: bool
  ending :: ending

text \<open>
  \<open>run\<close> holds of the configurations the server reaches by the following steps, each
  taken as a whole. At the beginning (\<open>init\<close>) every connection is at \<open>readMessage\<close>, has
  not joined, and its writer takes messages.
  \<^item> \<open>read\<close>: \<open>readMessage\<close> returns a message; the connection is not closed yet.
  \<^item> \<open>read_error\<close>: \<open>readMessage\<close> returns an error, lines 88 to 91.
  \<^item> \<open>recv\<close>, \<open>recv_fatal\<close>: the receive loop handles the message it holds, lines 93 to
    163, and goes on, or puts an error on \<open>errc\<close> and returns.
  \<^item> \<open>write_error\<close>: \<open>WriteJSON\<close> fails on a message the writer has taken, lines 176 to
    180: the writer puts the error on \<open>errc\<close> and returns; \<open>Leavec\<close> stays open.
  \<^item> \<open>signal\<close>: the body of \<open>ws\<close> takes an error from \<open>errc\<close> and sends \<open>done\<close>, lines
    188 to 190. Nothing has stopped the receive loop at that point: when the error came
    from the writer, the loop is still at \<open>readMessage\<close> or holds a message.
  \<^item> \<open>writer_done\<close>: the writer takes \<open>done\<close>, closes \<open>Leavec\<close> and returns, lines 181
    to 183.
  \<^item> \<open>leave_joined\<close>, \<open>leave_idle\<close>: lines 191 to 193; the body of \<open>ws\<close> reads
    \<open>hasJoined\<close> and \<open>room\<close> as the receive loop has left them, calls
    \<open>handleLeaveMessage\<close> if \<open>hasJoined\<close>, and returns.
  A call that does not return, and a nil \<open>room\<close> handed to a handler, have no successor
  configuration. Every run described is one of the program, with the routines taking
  turns between these steps; runs in which two handlers overlap in time are not
  described.
\<close>

inductive run :: "'raw Unmarshal \<Rightarrow> state \<times> (uref \<Rightarrow> 'raw conn) \<Rightarrow> bool" for js where
  init: "run js (start, \<lambda>u. \<lparr>vars = \<lparr>room = None, hasJoined = False\<rparr>, reader = AtRead,
                                errc = False, ending = Waiting\<rparr>)"
| read: "run js (s, cs) \<Longrightarrow> reader (cs u) = AtRead \<Longrightarrow> ending (cs u) \<noteq> Finished \<Longrightarrow>
         run js (s, cs(u := (cs u)\<lparr>reader := Got msg\<rparr>))"
| read_error: "run js (s, cs) \<Longrightarrow> reader (cs u) = AtRead \<Longrightarrow>
         run js (s, cs(u := (cs u)\<lparr>reader := Returned, errc := True\<rparr>))"
| recv: "run js (s, cs) \<Longrightarrow> reader (cs u) = Got msg \<Longrightarrow>
         ws_recv js u msg (vars (cs u)) s = Some (Continue sess', s') \<Longrightarrow>
         run js (s', cs(u := (cs u)\<lparr>vars := sess', reader := AtRead\<rparr>))"
| recv_fatal: "run js (s, cs) \<Longrightarrow> reader (cs u) = Got msg \<Longrightarrow>
         ws_recv js u msg (vars (cs u)) s = Some (Return e sess', s') \<Longrightarrow>
         run js (s', cs(u := (cs u)\<lparr>vars := sess', reader := Returned, errc := True\<rparr>))"
| write_error: "run js (s, cs) \<Longrightarrow> Sendc (users s u) = Receiving \<Longrightarrow>
         Send u m True \<in> set (trace s) \<Longrightarrow>
         run js (s\<lparr>users := (users s)(u := (users s u)\<lparr>Sendc := Stuck\<rparr>)\<rparr>,
                 cs(u := (cs u)\<lparr>errc := True\<rparr>))"
| signal: "run js (s, cs) \<Longrightarrow> errc (cs u) \<Longrightarrow> ending (cs u) = Waiting \<Longrightarrow>
         run js (s, cs(u := (cs u)\<lparr>ending := Signalled\<rparr>))"
| writer_done: "run js (s, cs) \<Longrightarrow> ending (cs u) \<noteq> Waiting \<Longrightarrow>
         Sendc (users s u) = Receiving \<Longrightarrow>
         run js (s\<lparr>users := (users s)(u := (users s u)\<lparr>Sendc := Closed\<rparr>)\<rparr>, cs)"
| leave_joined: "run js (s, cs) \<Longrightarrow> ending (cs u) = Signalled \<Longrightarrow>
         hasJoined (vars (cs u)) \<Longrightarrow> room (vars (cs u)) = Some r \<Longrightarrow>
         handleLeaveMessage r u s = Some s' \<Longrightarrow>
         run js (s', cs(u := (cs u)\<lparr>ending := Finished\<rparr>))"
| leave_idle: "run js (s, cs) \<Longrightarrow> ending (cs u) = Signalled \<Longrightarrow>
         \<not> hasJoined (vars (cs u)) \<Longrightarrow>
         run js (s, cs(u := (cs u)\<lparr>ending := Finished\<rparr>))"


section \<open>Properties\<close>

subsection \<open>Field updates\<close>

lemma emit_fields [simp]:
  "users (emit e s) = users s"
  "rooms (emit e s) = rooms s"
  "nextRoom (emit e s) = nextRoom s"
  "allRooms (emit e s) = allRooms s"
  "trace (emit e s) = trace s @ [e]"
  by (simp_all add: emit_def)

lemma set_Users_fields [simp]:
  "users (set_Users r us s) = users s"
  "rooms (set_Users r us s) = (rooms s)(r := (rooms s r)\<lparr>Users := us\<rparr>)"
  "nextRoom (set_Users r us s) = nextRoom s"
  "allRooms (set_Users r us s) = allRooms s"
  "trace (set_Users r us s) = trace s"
  by (simp_all add: set_Users_def)

lemma set_Name_fields [simp]:
  "users (set_Name u n s) = (users s)(u := (users s u)\<lparr>User.Name := n\<rparr>)"
  "rooms (set_Name u n s) = rooms s"
  "nextRoom (set_Name u n s) = nextRoom s"
  "allRooms (set_Name u n s) = allRooms s"
  "trace (set_Name u n s) = trace s"
  by (simp_all add: set_Name_def)

subsection \<open>sendMessage and broadcastMessage in closed form\<close>

lemma sendMessage_Some:
  "sendMessage u m s = Some (ok, s') \<longleftrightarrow>
     Sendc (users s u) \<noteq> Stuck \<and> ok = (Sendc (users s u) = Receiving) \<and>
     s' = emit (Send u m ok) s"
  by (cases "Sendc (users s u)") (auto simp: sendMessage_def)

lemma sendMessage_None: "sendMessage u m s = None \<longleftrightarrow> Sendc (users s u) = Stuck"
  by (cases "Sendc (users s u)") (auto simp: sendMessage_def)

lemma broadcastMessage_None:
  "broadcastMessage us m s = None \<longleftrightarrow> \<not> resolves s us"
proof (induction us arbitrary: s)
  case Nil
  show ?case by (simp add: resolves_def)
next
  case (Cons p us)
  obtain name user where p: "p = (name, user)" by (cases p)
  show ?case
  proof (cases "sendMessage user m s")
    case None
    then have "Sendc (users s user) = Stuck" by (simp add: sendMessage_None)
    with None show ?thesis by (simp add: p resolves_def)
  next
    case (Some r)
    obtain ok s1 where r: "r = (ok, s1)" by (cases r)
    from Some r have s1: "Sendc (users s user) \<noteq> Stuck" "s1 = emit (Send user m ok) s"
      by (simp_all add: sendMessage_Some)
    have "resolves s1 us = resolves s us" by (simp add: s1 resolves_def)
    with Cons.IH [of s1] Some r s1(1) show ?thesis by (simp add: p resolves_def)
  qed
qed

lemma broadcastMessage_Some:
  "broadcastMessage us m s = Some s' \<longleftrightarrow>
     resolves s us \<and> s' = s\<lparr>trace := trace s @ map (attempt s m) us\<rparr>"
proof (induction us arbitrary: s)
  case Nil
  show ?case by (auto simp: resolves_def)
next
  case (Cons p us)
  obtain name user where p: "p = (name, user)" by (cases p)
  show ?case
  proof (cases "sendMessage user m s")
    case None
    then have "Sendc (users s user) = Stuck" by (simp add: sendMessage_None)
    with None show ?thesis by (simp add: p resolves_def)
  next
    case (Some r)
    obtain ok s1 where r: "r = (ok, s1)" by (cases r)
    from Some r have s1: "Sendc (users s user) \<noteq> Stuck"
      "ok = (Sendc (users s user) = Receiving)" "s1 = emit (Send user m ok) s"
      by (simp_all add: sendMessage_Some)
    have a: "attempt s1 m = attempt s m" by (rule ext) (simp add: s1 attempt_def)
    have b: "resolves s1 us = resolves s us" by (simp add: s1 resolves_def)
    have c: "s1\<lparr>trace := trace s1 @ map (attempt s m) us\<rparr> =
             s\<lparr>trace := trace s @ map (attempt s m) (p # us)\<rparr>"
      by (simp add: s1 p attempt_def emit_def)
    from Cons.IH [of s1] Some r s1(1) a b c show ?thesis
      by (simp add: p resolves_def)
  qed
qed

lemma broadcastMessage_eq:
  "broadcastMessage us m s =
     (if resolves s us then Some (s\<lparr>trace := trace s @ map (attempt s m) us\<rparr>) else None)"
proof (cases "resolves s us")
  case True
  then show ?thesis by (simp add: broadcastMessage_Some)
next
  case False
  then show ?thesis by (simp add: broadcastMessage_None)
qed

lemma same_listeners:
  assumes "\<And>u. Sendc (users s' u) = Sendc (users s u)"
  shows "resolves s' us = resolves s us" and "attempt s' m = attempt s m"
  using assms by (simp_all add: resolves_def attempt_def fun_eq_iff)

lemma resolves_trace_update [simp]: "resolves (s\<lparr>trace := t\<rparr>) us = resolves s us"
  by (rule same_listeners) simp

lemma attempt_trace_update [simp]: "attempt (s\<lparr>trace := t\<rparr>) m = attempt s m"
  by (rule same_listeners) simp

lemma resolves_allRooms_update [simp]: "resolves (s\<lparr>allRooms := t\<rparr>) us = resolves s us"
  by (rule same_listeners) simp

lemma attempt_allRooms_update [simp]: "attempt (s\<lparr>allRooms := t\<rparr>) m = attempt s m"
  by (rule same_listeners) simp

lemma resolves_rooms_update [simp]: "resolves (s\<lparr>rooms := t\<rparr>) us = resolves s us"
  by (rule same_listeners) simp

lemma attempt_rooms_update [simp]: "attempt (s\<lparr>rooms := t\<rparr>) m = attempt s m"
  by (rule same_listeners) simp

lemma resolves_nextRoom_update [simp]: "resolves (s\<lparr>nextRoom := t\<rparr>) us = resolves s us"
  by (rule same_listeners) simp

lemma attempt_nextRoom_update [simp]: "attempt (s\<lparr>nextRoom := t\<rparr>) m = attempt s m"
  by (rule same_listeners) simp

lemma resolves_Name_update [simp]:
  "resolves (s\<lparr>users := (users s)(u := (users s u)\<lparr>User.Name := n\<rparr>)\<rparr>) us = resolves s us"
  by (rule same_listeners) simp

lemma attempt_Name_update [simp]:
  "attempt (s\<lparr>users := (users s)(u := (users s u)\<lparr>User.Name := n\<rparr>)\<rparr>) m = attempt s m"
  by (rule same_listeners) simp

lemma resolves_emit [simp]: "resolves (emit e s) us = resolves s us"
  by (rule same_listeners) simp

lemma attempt_emit [simp]: "attempt (emit e s) m = attempt s m"
  by (rule same_listeners) simp

lemma resolves_set_Users [simp]: "resolves (set_Users r vs s) us = resolves s us"
  by (rule same_listeners) simp

lemma attempt_set_Users [simp]: "attempt (set_Users r vs s) m = attempt s m"
  by (rule same_listeners) simp

lemma resolves_set_Name [simp]: "resolves (set_Name u n s) us = resolves s us"
  by (rule same_listeners) simp

lemma attempt_set_Name [simp]: "attempt (set_Name u n s) m = attempt s m"
  by (rule same_listeners) simp

subsection \<open>The handlers in closed form\<close>

lemma handleGroupMessage_eq:
  "handleGroupMessage mText r user s =
     (if resolves s (Users (rooms s r)) then
        Some (None, s\<lparr>trace := trace s @ Lock (Mutex r) #
                map (attempt s (GroupMessage (User.Name (users s user)) mText))
                  (Users (rooms s r)) @ [Unlock (Mutex r)]\<rparr>)
      else None)"
  by (simp add: handleGroupMessage_def Let_def broadcastMessage_eq emit_def)

lemma handlePrivateMessage_eq:
  "handlePrivateMessage mTo mText r user s =
     (case map_of (Users (rooms s r)) mTo of
        None \<Rightarrow> Some (Some ''Recipient not in room.'',
                  s\<lparr>trace := trace s @ [Lock (Mutex r), Unlock (Mutex r)]\<rparr>)
      | Some to \<Rightarrow>
          (case Sendc (users s to) of
             Receiving \<Rightarrow>
               Some (None, s\<lparr>trace := trace s @
                 [Lock (Mutex r),
                  Send to (PrivateMessage (User.Name (users s user)) [] mText) True,
                  Unlock (Mutex r)]\<rparr>)
           | Closed \<Rightarrow>
               Some (Some ''Failed to deliver private message to recipient.'',
                 s\<lparr>trace := trace s @
                 [Lock (Mutex r),
                  Send to (PrivateMessage (User.Name (users s user)) [] mText) False,
                  Unlock (Mutex r)]\<rparr>)
           | Stuck \<Rightarrow> None))"
proof (cases "map_of (Users (rooms s r)) mTo")
  case None
  then show ?thesis by (simp add: handlePrivateMessage_def Let_def emit_def)
next
  case (Some to)
  then show ?thesis
    by (cases "Sendc (users s to)")
      (simp_all add: handlePrivateMessage_def Let_def sendMessage_def emit_def)
qed

lemma join_announce_eq:
  "join_announce mName user r s =
     (if Sendc (users s user) \<noteq> Stuck \<and> resolves s (Users (rooms s r)) then
        Some (Inr r, (set_Name user mName s)\<lparr>trace := trace s @
          join_events s mName user (Users (rooms s r))\<rparr>)
      else None)"
  by (cases "Sendc (users s user)")
    (simp_all add: join_announce_def Let_def sendMessage_def broadcastMessage_eq emit_def
       set_Name_def join_events_def)

lemma handleLeaveMessage_eq:
  "handleLeaveMessage r user s =
     (let name = User.Name (users s user);
          rest = AList.delete name (Users (rooms s r))
      in if resolves s rest then
           Some (s\<lparr>rooms := (rooms s)(r := (rooms s r)\<lparr>Users := rest\<rparr>),
                   allRooms := (if rest = [] then AList.delete (Room.Name (rooms s r)) (allRooms s)
                                else allRooms s),
                   trace := trace s @ [Lock allRoomsMutex, Lock (Mutex r)] @
                     map (attempt s (LeaveMessage name)) rest @
                     [Unlock (Mutex r), Unlock allRoomsMutex]\<rparr>)
         else None)"
  by (simp add: handleLeaveMessage_def Let_def broadcastMessage_eq emit_def set_Users_def)

lemma handleJoinMessage_Inl:
  "handleJoinMessage mRoom mName user s = Some (Inl e, s') \<longleftrightarrow>
     (if length mRoom = 0 \<or> 128 < length mRoom then
        e = ''Room name must be between 1 and 128 characters.'' \<and> s' = s
      else if length mName = 0 \<or> 128 < length mName then
        e = ''Nickname must be between 1 and 128 characters.'' \<and> s' = s
      else \<exists>r. map_of (allRooms s) mRoom = Some r \<and>
             map_of (Users (rooms s r)) mName \<noteq> None \<and> e = ''Nickname in use.'' \<and>
             s' = s\<lparr>trace := trace s @
               [Lock allRoomsMutex, Lock (Mutex r), Unlock (Mutex r), Unlock allRoomsMutex]\<rparr>)"
  by (auto simp: handleJoinMessage_def Let_def join_announce_eq new_Room_def emit_def
      split: option.splits)

lemma handleJoinMessage_Inr:
  "handleJoinMessage mRoom mName user s = Some (Inr r, s') \<longleftrightarrow>
     1 \<le> length mRoom \<and> length mRoom \<le> 128 \<and> 1 \<le> length mName \<and> length mName \<le> 128 \<and>
     Sendc (users s user) \<noteq> Stuck \<and>
     (case map_of (allRooms s) mRoom of
        Some r0 \<Rightarrow>
          r = r0 \<and> map_of (Users (rooms s r)) mName = None \<and>
          resolves s (AList.update mName user (Users (rooms s r))) \<and>
          s' = s\<lparr>users := (users s)(user := (users s user)\<lparr>User.Name := mName\<rparr>),
                 rooms := (rooms s)(r := (rooms s r)
                   \<lparr>Users := AList.update mName user (Users (rooms s r))\<rparr>),
                 trace := trace s @ [Lock allRoomsMutex, Lock (Mutex r), Unlock (Mutex r)] @
                   join_events s mName user (AList.update mName user (Users (rooms s r)))\<rparr>
      | None \<Rightarrow>
          r = nextRoom s \<and> resolves s [(mName, user)] \<and>
          s' = s\<lparr>users := (users s)(user := (users s user)\<lparr>User.Name := mName\<rparr>),
                 rooms := (rooms s)(r := \<lparr>Room.Name = mRoom, Users = [(mName, user)]\<rparr>),
                 nextRoom := Suc r,
                 allRooms := AList.update mRoom r (allRooms s),
                 trace := trace s @ [Lock allRoomsMutex] @
                   join_events s mName user [(mName, user)]\<rparr>)"
  by (auto simp: handleJoinMessage_def Let_def join_announce_eq new_Room_def emit_def
      set_Users_def set_Name_def join_events_def Suc_le_eq split: option.splits)

subsection \<open>Joining\<close>

lemma is_roster_attempt [simp]: "is_roster (attempt s (JoinMessage a b) p) = False"
  by (simp add: attempt_def)

lemma is_join_attempt [simp]: "is_join (attempt s (JoinMessage a b) p) = True"
  by (simp add: attempt_def)

lemma filter_is_roster_attempt [simp]:
  "filter is_roster (map (attempt s (JoinMessage a b)) us) = []"
  by (induction us) simp_all

lemma filter_is_join_attempt [simp]:
  "filter is_join (map (attempt s (JoinMessage a b)) us) = map (attempt s (JoinMessage a b)) us"
  by (induction us) simp_all

lemma update_entry: "map_of al k = None \<Longrightarrow> (k, v) \<in> set (AList.update k v al)"
  by (induction al) (auto split: if_splits)

lemma handleJoinMessage_membership:
  assumes "handleJoinMessage mRoom mName user s = Some (Inr r, s')"
  shows "Users (rooms s' r) = AList.update mName user (occupants s mRoom)"
    and "map_of (occupants s mRoom) mName = None"
    and "User.Name (users s' user) = mName"
    and "since s s' =
           (case map_of (allRooms s) mRoom of None \<Rightarrow> [Lock allRoomsMutex]
            | Some r0 \<Rightarrow> [Lock allRoomsMutex, Lock (Mutex r0), Unlock (Mutex r0)]) @
           join_events s mName user (Users (rooms s' r))"
proof -
  show "Users (rooms s' r) = AList.update mName user (occupants s mRoom)"
    using assms
    by (cases "map_of (allRooms s) mRoom") (simp_all add: handleJoinMessage_Inr occupants_def)
  show "map_of (occupants s mRoom) mName = None"
    using assms
    by (cases "map_of (allRooms s) mRoom") (simp_all add: handleJoinMessage_Inr occupants_def)
  show "User.Name (users s' user) = mName"
    using assms by (cases "map_of (allRooms s) mRoom") (simp_all add: handleJoinMessage_Inr)
  show "since s s' =
           (case map_of (allRooms s) mRoom of None \<Rightarrow> [Lock allRoomsMutex]
            | Some r0 \<Rightarrow> [Lock allRoomsMutex, Lock (Mutex r0), Unlock (Mutex r0)]) @
           join_events s mName user (Users (rooms s' r))"
    using assms
    by (cases "map_of (allRooms s) mRoom") (simp_all add: handleJoinMessage_Inr since_def)
qed

lemma handleJoinMessage_rejects:
  assumes "length mRoom < 1 \<or> 128 < length mRoom \<or> length mName < 1 \<or> 128 < length mName \<or>
       (\<exists>r. map_of (allRooms s) mRoom = Some r \<and> map_of (Users (rooms s r)) mName \<noteq> None)"
  shows "\<exists>e s'. handleJoinMessage mRoom mName user s = Some (Inl e, s')"
proof (cases "length mRoom = 0 \<or> 128 < length mRoom")
  case True
  then have "handleJoinMessage mRoom mName user s =
      Some (Inl ''Room name must be between 1 and 128 characters.'', s)"
    by (simp add: handleJoinMessage_def)
  then show ?thesis by blast
next
  case room_ok: False
  show ?thesis
  proof (cases "length mName = 0 \<or> 128 < length mName")
    case True
    with room_ok have "handleJoinMessage mRoom mName user s =
        Some (Inl ''Nickname must be between 1 and 128 characters.'', s)"
      by (simp add: handleJoinMessage_def)
    then show ?thesis by blast
  next
    case False
    with room_ok assms obtain r u where "map_of (allRooms s) mRoom = Some r"
      and "map_of (Users (rooms s r)) mName = Some u"
      by auto
    with room_ok False have "handleJoinMessage mRoom mName user s =
        Some (Inl ''Nickname in use.'',
          emit (Unlock allRoomsMutex) (emit (Unlock (Mutex r))
            (emit (Lock (Mutex r)) (emit (Lock allRoomsMutex) s))))"
      by (simp add: handleJoinMessage_def Let_def)
    then show ?thesis by blast
  qed
qed

lemma join_announce_not_Inl: "join_announce mName user r s \<noteq> Some (Inl e, s')"
  by (simp add: join_announce_eq)

lemma handleJoinMessage_rejected:
  assumes "handleJoinMessage mRoom mName user s = Some (Inl e, s')"
  shows "length mRoom < 1 \<or> 128 < length mRoom \<or> length mName < 1 \<or> 128 < length mName \<or>
       (\<exists>r. map_of (allRooms s) mRoom = Some r \<and> map_of (Users (rooms s r)) mName \<noteq> None)"
    and "allRooms s' = allRooms s \<and> rooms s' = rooms s \<and> users s' = users s \<and>
       nextRoom s' = nextRoom s"
proof -
  have "(length mRoom < 1 \<or> 128 < length mRoom \<or> length mName < 1 \<or> 128 < length mName \<or>
       (\<exists>r. map_of (allRooms s) mRoom = Some r \<and> map_of (Users (rooms s r)) mName \<noteq> None)) \<and>
      (allRooms s' = allRooms s \<and> rooms s' = rooms s \<and> users s' = users s \<and>
       nextRoom s' = nextRoom s)"
  proof (cases "length mRoom = 0 \<or> 128 < length mRoom")
    case True
    with assms have "s' = s" by (simp add: handleJoinMessage_def)
    with True show ?thesis by auto
  next
    case room_ok: False
    show ?thesis
    proof (cases "length mName = 0 \<or> 128 < length mName")
      case True
      with room_ok assms have "s' = s" by (simp add: handleJoinMessage_def)
      with True show ?thesis by auto
    next
      case name_ok: False
      show ?thesis
      proof (cases "map_of (allRooms s) mRoom")
        case None
        with room_ok name_ok assms show ?thesis
          by (simp add: handleJoinMessage_def Let_def new_Room_def join_announce_not_Inl)
      next
        case (Some r)
        show ?thesis
        proof (cases "map_of (Users (rooms s r)) mName")
          case None
          with Some room_ok name_ok assms show ?thesis
            by (simp add: handleJoinMessage_def Let_def join_announce_not_Inl)
        next
          case (Some u)
          with \<open>map_of (allRooms s) mRoom = Some r\<close> room_ok name_ok assms
          have "s' = emit (Unlock allRoomsMutex) (emit (Unlock (Mutex r))
                  (emit (Lock (Mutex r)) (emit (Lock allRoomsMutex) s)))"
            by (simp add: handleJoinMessage_def Let_def)
          then have "allRooms s' = allRooms s \<and> rooms s' = rooms s \<and> users s' = users s \<and>
             nextRoom s' = nextRoom s"
            by simp
          with Some \<open>map_of (allRooms s) mRoom = Some r\<close> show ?thesis by auto
        qed
      qed
    qed
  qed
  then show "length mRoom < 1 \<or> 128 < length mRoom \<or> length mName < 1 \<or> 128 < length mName \<or>
       (\<exists>r. map_of (allRooms s) mRoom = Some r \<and> map_of (Users (rooms s r)) mName \<noteq> None)"
    and "allRooms s' = allRooms s \<and> rooms s' = rooms s \<and> users s' = users s \<and>
       nextRoom s' = nextRoom s"
    by blast+
qed

subsection \<open>Leaving\<close>

lemma handleLeaveMessage_Some:
  assumes "handleLeaveMessage r user s = Some s'"
  shows "Users (rooms s' r) = AList.delete (User.Name (users s user)) (Users (rooms s r))"
    and "since s s' = [Lock allRoomsMutex, Lock (Mutex r)] @
           map (attempt s (LeaveMessage (User.Name (users s user)))) (Users (rooms s' r)) @
           [Unlock (Mutex r), Unlock allRoomsMutex]"
    and "users s' = users s" and "nextRoom s' = nextRoom s"
    and "\<And>r'. r' \<noteq> r \<Longrightarrow> rooms s' r' = rooms s r'"
    and "Room.Name (rooms s' r) = Room.Name (rooms s r)"
    and "allRooms s' = (if Users (rooms s' r) = []
                        then AList.delete (Room.Name (rooms s r)) (allRooms s) else allRooms s)"
  using assms
  by (auto simp: handleLeaveMessage_eq Let_def since_def split: if_splits)

lemma not_sent_to:
  assumes "user \<notin> snd ` set us"
  shows "Send user m ok \<notin> set (map (attempt s msg) us)"
  using assms by (induction us) (auto simp: attempt_def)

lemma delete_removes_user:
  assumes "\<forall>name. (name, user) \<in> set us \<longrightarrow> name = k"
  shows "user \<notin> snd ` set (AList.delete k us)"
  using assms by (induction us) auto

subsection \<open>The receive loop\<close>

lemma pass_error_Receiving:
  "Sendc (users s user) = Receiving \<Longrightarrow>
   pass_error user (Some e) sess s = Some (Continue sess, emit (Send user (ErrorMessage e) True) s)"
  by (simp add: pass_error_def sendMessage_def)

subsection \<open>Locks\<close>

lemma lock_order_attempts [simp]:
  "lock_order held (map (attempt s m) us @ es) = lock_order held es"
  by (induction us) (simp_all add: attempt_def)

lemma is_lock_attempts [simp]: "filter is_lock (map (attempt s m) us) = []"
  by (induction us) (simp_all add: attempt_def)

lemma lock_order_append:
  "lock_order held xs \<Longrightarrow> lock_order [] ys \<Longrightarrow> lock_order held (xs @ ys)"
proof (induction held xs rule: lock_order.induct)
  case (4 held m es)
  then show ?case by (cases held) auto
qed auto

lemma since_trans:
  assumes "\<exists>xs. trace s1 = trace s @ xs" and "\<exists>ys. trace s2 = trace s1 @ ys"
  shows "since s s2 = since s s1 @ since s1 s2"
  using assms by (auto simp: since_def)

lemma since_emit [simp]: "since s (emit e s) = [e]"
  by (simp add: since_def)

lemma since_self [simp]: "since s s = []"
  by (simp add: since_def)

lemma join_locks:
  assumes "handleJoinMessage mRoom mName user s = Some (res, s')"
  shows "lock_order [] (since s s')"
    and "1 \<le> length mRoom \<and> length mRoom \<le> 128 \<and> 1 \<le> length mName \<and> length mName \<le> 128 \<and>
         map_of (allRooms s) mRoom = Some r \<longrightarrow>
         filter is_lock (since s s') =
           [Lock allRoomsMutex, Lock (Mutex r), Unlock (Mutex r), Unlock allRoomsMutex]"
    and "\<exists>es. trace s' = trace s @ es"
proof -
  have "lock_order [] (since s s') \<and>
      (1 \<le> length mRoom \<and> length mRoom \<le> 128 \<and> 1 \<le> length mName \<and> length mName \<le> 128 \<and>
         map_of (allRooms s) mRoom = Some r \<longrightarrow>
         filter is_lock (since s s') =
           [Lock allRoomsMutex, Lock (Mutex r), Unlock (Mutex r), Unlock allRoomsMutex]) \<and>
      (\<exists>es. trace s' = trace s @ es)"
  proof (cases res)
    case (Inl e)
    with assms show ?thesis
      by (cases "length mRoom = 0 \<or> 128 < length mRoom";
          cases "length mName = 0 \<or> 128 < length mName")
        (auto simp: handleJoinMessage_Inl since_def)
  next
    case (Inr r')
    with assms have h: "handleJoinMessage mRoom mName user s = Some (Inr r', s')" by simp
    from h have "\<exists>es. trace s' = trace s @ es"
      by (cases "map_of (allRooms s) mRoom") (simp_all add: handleJoinMessage_Inr)
    with handleJoinMessage_membership(4) [OF h] show ?thesis
      by (cases "map_of (allRooms s) mRoom") (simp_all add: join_events_def)
  qed
  then show "lock_order [] (since s s')"
    and "1 \<le> length mRoom \<and> length mRoom \<le> 128 \<and> 1 \<le> length mName \<and> length mName \<le> 128 \<and>
         map_of (allRooms s) mRoom = Some r \<longrightarrow>
         filter is_lock (since s s') =
           [Lock allRoomsMutex, Lock (Mutex r), Unlock (Mutex r), Unlock allRoomsMutex]"
    and "\<exists>es. trace s' = trace s @ es"
    by simp_all
qed

lemma leave_locks:
  assumes "handleLeaveMessage r user s = Some s'"
  shows "lock_order [] (since s s')"
    and "filter is_lock (since s s') =
           [Lock allRoomsMutex, Lock (Mutex r), Unlock (Mutex r), Unlock allRoomsMutex]"
    and "\<exists>es. trace s' = trace s @ es"
  using assms
  by (auto simp: handleLeaveMessage_Some(2) [OF assms] handleLeaveMessage_eq Let_def
      split: if_splits)

lemma group_locks:
  assumes "handleGroupMessage mText r user s = Some (res, s')"
  shows "lock_order [] (since s s')" and "\<exists>es. trace s' = trace s @ es"
  using assms by (auto simp: handleGroupMessage_eq since_def split: if_splits)

lemma private_locks:
  assumes "handlePrivateMessage mTo mText r user s = Some (res, s')"
  shows "lock_order [] (since s s')" and "\<exists>es. trace s' = trace s @ es"
  using assms
  by (auto simp: handlePrivateMessage_eq since_def split: option.splits listener.splits)

lemma pass_error_locks:
  assumes "pass_error user err sess s = Some (out, s')"
  shows "lock_order [] (since s s')" and "\<exists>es. trace s' = trace s @ es"
  using assms
  by (auto simp: pass_error_def sendMessage_Some since_def split: option.splits if_splits bind_splits)

lemma recv_locks:
  assumes "ws_recv js user msg sess s = Some (out, s')"
  shows "lock_order [] (since s s')"
proof -
  have step: "lock_order [] (since s s')"
    if "lock_order [] (since s s1)" "\<exists>es. trace s1 = trace s @ es"
      "pass_error user err sess' s1 = Some (out, s')" for s1 err sess'
  proof -
    note p = pass_error_locks [OF that(3)]
    from since_trans [OF that(2) p(2)] lock_order_append [OF that(1) p(1)]
    show ?thesis by simp
  qed
  have direct: "lock_order [] (since s s')"
    if "pass_error user err sess' s = Some (out, s')" for err sess'
    using pass_error_locks(1) [OF that] .
  show ?thesis
  proof (cases "Type msg")
    case TypeJoinMessage
    show ?thesis
    proof (cases "hasJoined sess")
      case True
      with TypeJoinMessage assms show ?thesis by (auto simp: ws_recv_def intro: direct)
    next
      case False
      show ?thesis
      proof (cases "decodeJoin js (Raw msg)")
        case None
        with False TypeJoinMessage assms show ?thesis by (simp add: ws_recv_def)
      next
        case (Some p)
        obtain mRoom mName where p: "p = (mRoom, mName)" by (cases p)
        from Some p False TypeJoinMessage assms obtain res s1
          where j: "handleJoinMessage mRoom mName user s = Some (res, s1)"
            and e: "(case res of Inl e \<Rightarrow> pass_error user (Some e) (sess\<lparr>room := None\<rparr>) s1
                     | Inr r \<Rightarrow> pass_error user None (sess\<lparr>room := Some r, hasJoined := True\<rparr>) s1)
                    = Some (out, s')"
          by (auto simp: ws_recv_def split: bind_splits)
        from e show ?thesis
          by (cases res) (auto intro: step [OF join_locks(1) [OF j] join_locks(3) [OF j]])
      qed
    qed
  next
    case TypeLeaveMessage
    show ?thesis
    proof (cases "hasJoined sess")
      case False
      with TypeLeaveMessage assms show ?thesis by (auto simp: ws_recv_def intro: direct)
    next
      case True
      show ?thesis
      proof (cases "room sess")
        case None
        with True TypeLeaveMessage assms show ?thesis by (simp add: ws_recv_def)
      next
        case (Some r)
        with True TypeLeaveMessage assms obtain s1
          where l: "handleLeaveMessage r user s = Some s1"
            and e: "pass_error user None (sess\<lparr>hasJoined := False, room := None\<rparr>)
                      (set_Name user [] s1) = Some (out, s')"
          by (auto simp: ws_recv_def split: bind_splits)
        have "since s (set_Name user [] s1) = since s s1" by (simp add: since_def)
        with leave_locks(1) [OF l]
        have a: "lock_order [] (since s (set_Name user [] s1))" by simp
        from leave_locks(3) [OF l]
        have b: "\<exists>es. trace (set_Name user [] s1) = trace s @ es" by simp
        from step [OF a b e] show ?thesis .
      qed
    qed
  next
    case TypeGroupMessage
    show ?thesis
    proof (cases "hasJoined sess")
      case False
      with TypeGroupMessage assms show ?thesis by (auto simp: ws_recv_def intro: direct)
    next
      case True
      show ?thesis
      proof (cases "decodeGroup js (Raw msg)")
        case None
        with True TypeGroupMessage assms show ?thesis by (simp add: ws_recv_def)
      next
        case (Some mText)
        note dec = Some
        show ?thesis
        proof (cases "room sess")
          case None
          with dec True TypeGroupMessage assms show ?thesis by (simp add: ws_recv_def)
        next
          case (Some r)
          with dec True TypeGroupMessage assms obtain err s1
            where g: "handleGroupMessage mText r user s = Some (err, s1)"
              and e: "pass_error user err sess s1 = Some (out, s')"
            by (auto simp: ws_recv_def split: bind_splits)
          from step [OF group_locks [OF g] e] show ?thesis .
        qed
      qed
    qed
  next
    case TypePrivateMessage
    show ?thesis
    proof (cases "hasJoined sess")
      case False
      with TypePrivateMessage assms show ?thesis by (auto simp: ws_recv_def intro: direct)
    next
      case True
      show ?thesis
      proof (cases "decodePrivate js (Raw msg)")
        case None
        with True TypePrivateMessage assms show ?thesis by (simp add: ws_recv_def)
      next
        case (Some p)
        note dec = Some
        obtain mTo mText where p: "p = (mTo, mText)" by (cases p)
        show ?thesis
        proof (cases "room sess")
          case None
          with dec True TypePrivateMessage assms show ?thesis by (simp add: ws_recv_def)
        next
          case (Some r)
          with dec p True TypePrivateMessage assms obtain err s1
            where g: "handlePrivateMessage mTo mText r user s = Some (err, s1)"
              and e: "pass_error user err sess s1 = Some (out, s')"
            by (auto simp: ws_recv_def split: bind_splits)
          from step [OF private_locks [OF g] e] show ?thesis .
        qed
      qed
    qed
  next
    case (TypeOther t)
    with assms show ?thesis by (simp add: ws_recv_def)
  qed
qed

subsection \<open>The lifecycle of rooms\<close>

lemma registry_entries:
  "list_all (\<lambda>(n, r). Q n r) al \<longleftrightarrow> (\<forall>n r. (n, r) \<in> set al \<longrightarrow> Q n r)"
  by (induction al) auto

lemma registry_values: "r \<in> snd ` set al \<longleftrightarrow> (\<exists>n. (n, r) \<in> set al)"
  by (induction al) auto

lemma lifecycle_iff:
  "lifecycle s \<longleftrightarrow>
     distinct (map fst (allRooms s)) \<and>
     (\<forall>n r. (n, r) \<in> set (allRooms s) \<longrightarrow> r < nextRoom s \<and> Room.Name (rooms s r) = n) \<and>
     (\<forall>r<nextRoom s. (\<exists>n. (n, r) \<in> set (allRooms s)) \<longleftrightarrow> Users (rooms s r) \<noteq> [])"
  unfolding lifecycle_def registry_entries registry_values
  by (simp add: list_all_iff Ball_def)

lemma update_absent: "map_of al k = None \<Longrightarrow> AList.update k v al = al @ [(k, v)]"
  by (induction al) (auto split: if_splits)

lemma set_delete: "set (AList.delete k al) = {p \<in> set al. fst p \<noteq> k}"
  by (induction al) auto

lemma join_lifecycle:
  assumes inv: "lifecycle s"
    and h: "handleJoinMessage mRoom mName user s = Some (res, s')"
  shows "lifecycle s'"
proof (cases res)
  case (Inl e)
  with h have "allRooms s' = allRooms s \<and> rooms s' = rooms s \<and> users s' = users s \<and>
       nextRoom s' = nextRoom s"
    by (simp add: handleJoinMessage_rejected(2))
  with inv show ?thesis by (simp add: lifecycle_def)
next
  case (Inr r)
  with h have h': "handleJoinMessage mRoom mName user s = Some (Inr r, s')" by simp
  note i = inv [unfolded lifecycle_iff]
  show ?thesis
  proof (cases "map_of (allRooms s) mRoom")
    case None
    with h' have r: "r = nextRoom s"
      and rooms: "rooms s' = (rooms s)(r := \<lparr>Room.Name = mRoom, Users = [(mName, user)]\<rparr>)"
      and nxt: "nextRoom s' = Suc r"
      and reg: "allRooms s' = allRooms s @ [(mRoom, r)]"
      by (simp_all add: handleJoinMessage_Inr update_absent)
    from None have fresh: "mRoom \<notin> fst ` set (allRooms s)"
      by (simp add: map_of_eq_None_iff)
    from i r have old: "\<And>n r'. (n, r') \<in> set (allRooms s) \<Longrightarrow> r' < r \<and> Room.Name (rooms s r') = n"
      by blast
    have 1: "distinct (map fst (allRooms s'))"
      using i fresh by (simp add: reg)
    have 2: "\<forall>n r'. (n, r') \<in> set (allRooms s') \<longrightarrow>
        r' < nextRoom s' \<and> Room.Name (rooms s' r') = n"
      using old by (auto simp: reg rooms nxt dest: less_SucI)
    have 3: "\<forall>r'<nextRoom s'. (\<exists>n. (n, r') \<in> set (allRooms s')) \<longleftrightarrow> Users (rooms s' r') \<noteq> []"
    proof (intro allI impI)
      fix r'
      assume "r' < nextRoom s'"
      then consider "r' = r" | "r' < nextRoom s" "r' \<noteq> r" using nxt r by fastforce
      then show "(\<exists>n. (n, r') \<in> set (allRooms s')) \<longleftrightarrow> Users (rooms s' r') \<noteq> []"
      proof cases
        case 1
        then show ?thesis by (auto simp: reg rooms)
      next
        case 2
        with i show ?thesis by (auto simp: reg rooms)
      qed
    qed
    from 1 2 3 show ?thesis unfolding lifecycle_iff by (intro conjI)
  next
    case (Some r0)
    with h' have r: "r = r0"
      and rooms: "rooms s' = (rooms s)(r := (rooms s r)
                   \<lparr>Users := AList.update mName user (Users (rooms s r))\<rparr>)"
      and nxt: "nextRoom s' = nextRoom s"
      and reg: "allRooms s' = allRooms s"
      by (simp_all add: handleJoinMessage_Inr)
    from Some r have "(mRoom, r) \<in> set (allRooms s)" by (simp add: map_of_SomeD)
    with i have here: "\<exists>n. (n, r) \<in> set (allRooms s)" by blast
    have 2: "\<forall>n r'. (n, r') \<in> set (allRooms s') \<longrightarrow>
        r' < nextRoom s' \<and> Room.Name (rooms s' r') = n"
      using i by (auto simp: reg rooms nxt)
    have 3: "\<forall>r'<nextRoom s'. (\<exists>n. (n, r') \<in> set (allRooms s')) \<longleftrightarrow> Users (rooms s' r') \<noteq> []"
      using i here by (auto simp: reg rooms nxt)
    from i 2 3 show ?thesis unfolding lifecycle_iff by (simp add: reg)
  qed
qed

lemma join_registers:
  assumes h: "handleJoinMessage mRoom mName user s = Some (Inr r, s')"
  shows "map_of (allRooms s') mRoom = Some r"
    and "map_of (Users (rooms s' r)) mName = Some user"
    and "map_of (allRooms s) mRoom = None \<longrightarrow> r = nextRoom s"
    and "\<And>r0. map_of (allRooms s) mRoom = Some r0 \<Longrightarrow> r = r0"
  using h by (cases "map_of (allRooms s) mRoom";
      simp add: handleJoinMessage_Inr update_conv')+

lemma leave_lifecycle:
  assumes inv: "lifecycle s"
    and r: "r < nextRoom s" and members: "Users (rooms s r) \<noteq> []"
    and h: "handleLeaveMessage r user s = Some s'"
  shows "lifecycle s'" and "r \<in> snd ` set (allRooms s') \<longleftrightarrow> Users (rooms s' r) \<noteq> []"
proof -
  from inv have d: "distinct (map fst (allRooms s))"
    and e: "\<And>n r. (n, r) \<in> set (allRooms s) \<Longrightarrow> r < nextRoom s \<and> Room.Name (rooms s r) = n"
    and u: "\<And>r. r < nextRoom s \<Longrightarrow>
              (\<exists>n. (n, r) \<in> set (allRooms s)) \<longleftrightarrow> Users (rooms s r) \<noteq> []"
    unfolding lifecycle_iff by blast+
  note f = handleLeaveMessage_Some [OF h]
  from u [OF r] members obtain n where n: "(n, r) \<in> set (allRooms s)" by blast
  from e [OF n] have name: "Room.Name (rooms s r) = n" ..
  have uniq: "r' = r" if "(n, r') \<in> set (allRooms s)" for r'
    using d that n by (rule eq_key_imp_eq_value)
  have nxt: "nextRoom s' = nextRoom s" by (rule f(4))
  have names: "Room.Name (rooms s' r') = Room.Name (rooms s r')" for r'
    by (cases "r' = r") (simp_all add: f(5) f(6))
  have others: "Users (rooms s' r') = Users (rooms s r')" if "r' \<noteq> r" for r'
    using that by (simp add: f(5))
  have inv': "lifecycle s'"
  proof (cases "Users (rooms s' r) = []")
    case True
    then have reg: "allRooms s' = AList.delete n (allRooms s)" by (simp add: f(7) name)
    have mem: "(m, r') \<in> set (allRooms s') \<longleftrightarrow> (m, r') \<in> set (allRooms s) \<and> r' \<noteq> r" for m r'
    proof (cases "(m, r') \<in> set (allRooms s)")
      case False
      then show ?thesis by (simp add: reg set_delete)
    next
      case in_reg: True
      have "m \<noteq> n \<longleftrightarrow> r' \<noteq> r"
      proof
        assume "m \<noteq> n"
        show "r' \<noteq> r"
        proof
          assume "r' = r"
          with in_reg e have "Room.Name (rooms s r) = m" by blast
          with name \<open>m \<noteq> n\<close> show False by simp
        qed
      next
        assume "r' \<noteq> r"
        show "m \<noteq> n"
        proof
          assume "m = n"
          with in_reg uniq have "r' = r" by blast
          with \<open>r' \<noteq> r\<close> show False by simp
        qed
      qed
      with in_reg show ?thesis by (simp add: reg set_delete)
    qed
    have 1: "distinct (map fst (allRooms s'))"
      using d by (simp add: reg distinct_delete)
    have 2: "\<forall>m r'. (m, r') \<in> set (allRooms s') \<longrightarrow>
        r' < nextRoom s' \<and> Room.Name (rooms s' r') = m"
      using e by (auto simp: mem nxt names)
    have 3: "\<forall>r'<nextRoom s'. (\<exists>m. (m, r') \<in> set (allRooms s')) \<longleftrightarrow> Users (rooms s' r') \<noteq> []"
    proof (intro allI impI)
      fix r' assume "r' < nextRoom s'"
      with u nxt have *: "(\<exists>m. (m, r') \<in> set (allRooms s)) \<longleftrightarrow> Users (rooms s r') \<noteq> []"
        by simp
      show "(\<exists>m. (m, r') \<in> set (allRooms s')) \<longleftrightarrow> Users (rooms s' r') \<noteq> []"
      proof (cases "r' = r")
        case True
        with \<open>Users (rooms s' r) = []\<close> show ?thesis by (simp add: mem)
      next
        case False
        with * show ?thesis by (simp add: mem others)
      qed
    qed
    from 1 2 3 show ?thesis unfolding lifecycle_iff by (intro conjI)
  next
    case False
    then have reg: "allRooms s' = allRooms s" by (simp add: f(7))
    have 2: "\<forall>m r'. (m, r') \<in> set (allRooms s') \<longrightarrow>
        r' < nextRoom s' \<and> Room.Name (rooms s' r') = m"
      using e by (auto simp: reg nxt names)
    have 3: "\<forall>r'<nextRoom s'. (\<exists>m. (m, r') \<in> set (allRooms s')) \<longleftrightarrow> Users (rooms s' r') \<noteq> []"
    proof (intro allI impI)
      fix r' assume "r' < nextRoom s'"
      with u nxt have *: "(\<exists>m. (m, r') \<in> set (allRooms s)) \<longleftrightarrow> Users (rooms s r') \<noteq> []"
        by simp
      show "(\<exists>m. (m, r') \<in> set (allRooms s')) \<longleftrightarrow> Users (rooms s' r') \<noteq> []"
      proof (cases "r' = r")
        case True
        with False n show ?thesis unfolding reg by blast
      next
        case False
        with * show ?thesis by (simp add: reg others)
      qed
    qed
    from d 2 3 show ?thesis unfolding lifecycle_iff by (simp add: reg)
  qed
  then show "lifecycle s'" .
  from inv' have "\<forall>r'<nextRoom s'. (\<exists>m. (m, r') \<in> set (allRooms s')) \<longleftrightarrow> Users (rooms s' r') \<noteq> []"
    unfolding lifecycle_iff by blast
  with r nxt show "r \<in> snd ` set (allRooms s') \<longleftrightarrow> Users (rooms s' r) \<noteq> []"
    by (simp add: registry_values)
qed

subsection \<open>The scenario state\<close>

lemma lobby_fields:
  "Users (rooms lobby 0) = [(''alice'', 2), (''bob'', 3)]"
  "Room.Name (rooms lobby 0) = ''lobby''"
  "User.Name (users lobby 2) = ''alice''"
  "User.Name (users lobby 3) = ''bob''"
  "Sendc (users lobby u) = Receiving"
  "allRooms lobby = [(''lobby'', 0)]"
  "nextRoom lobby = 1"
  "trace lobby = []"
  by (simp_all add: lobby_def)

lemma carol_joins:
  "\<exists>s'. handleJoinMessage ''lobby'' ''carol'' 4 lobby = Some (Inr 0, s')"
  by (simp add: handleJoinMessage_Inr lobby_fields resolves_def)

lemma alice_opens:
  "\<exists>s'. handleJoinMessage ''lobby'' ''alice'' 2 start = Some (Inr 0, s')"
  by (simp add: handleJoinMessage_Inr start_def resolves_def)

lemma bob_leaves: "\<exists>s'. handleLeaveMessage 0 3 lobby = Some s'"
  by (simp add: handleLeaveMessage_eq Let_def lobby_fields resolves_def)

lemma lifecycle_start: "lifecycle start"
  by (simp add: lifecycle_def start_def)

lemma lifecycle_lobby: "lifecycle lobby"
  by (simp add: lifecycle_def lobby_def)

lemma upt_2: "[0..<2] = [0, Suc 0]"
  by (simp add: numeral_2_eq_2)

subsection \<open>Group and private messages\<close>

text \<open>
  \<open>handleGroupMessage\<close> has no error result. When every send to a member resolves, it
  returns nil after one \<open>sendMessage\<close> of \<open>GroupMessage{From: user.Name, Text: msg.Text}\<close>
  to each entry of the room's \<open>Users\<close>, the sender's own entry among them, all made
  between locking and unlocking the room's mutex; users, rooms and the registry are as
  before.
\<close>

lemma handleGroupMessage_resolving:
  "(\<forall>e s'. handleGroupMessage mText r user s \<noteq> Some (Some e, s')) \<and>
   (resolves s (Users (rooms s r)) \<longrightarrow>
      (\<exists>s'. handleGroupMessage mText r user s = Some (None, s') \<and>
         users s' = users s \<and> rooms s' = rooms s \<and>
         allRooms s' = allRooms s \<and> nextRoom s' = nextRoom s \<and>
         trace s' = trace s @ Lock (Mutex r) #
           map (attempt s (GroupMessage (User.Name (users s user)) mText))
             (Users (rooms s r)) @ [Unlock (Mutex r)] \<and>
         (\<forall>name. (name, user) \<in> set (Users (rooms s r)) \<longrightarrow>
            attempt s (GroupMessage (User.Name (users s user)) mText) (name, user)
              \<in> set (trace s'))))"
  by (simp add: handleGroupMessage_eq)

text \<open>
  \<open>handlePrivateMessage\<close> returns nil exactly when \<open>msg.To\<close> is a key of the room's
  \<open>Users\<close> and the recipient's writer takes the message; it returns the error "Failed to
  deliver private message to recipient." exactly when \<open>msg.To\<close> is a key and the
  recipient's \<open>Leavec\<close> is closed; it returns "Recipient not in room." exactly when
  \<open>msg.To\<close> is no key; and it does not return exactly when \<open>msg.To\<close> is a key and the
  recipient's writer has gone without closing \<open>Leavec\<close>.
\<close>

lemma handlePrivateMessage_outcomes:
  "((\<exists>s'. handlePrivateMessage mTo mText r user s = Some (None, s')) \<longleftrightarrow>
      (\<exists>to. map_of (Users (rooms s r)) mTo = Some to \<and> Sendc (users s to) = Receiving)) \<and>
   ((\<exists>s'. handlePrivateMessage mTo mText r user s =
            Some (Some ''Failed to deliver private message to recipient.'', s')) \<longleftrightarrow>
      (\<exists>to. map_of (Users (rooms s r)) mTo = Some to \<and> Sendc (users s to) = Closed)) \<and>
   ((\<exists>s'. handlePrivateMessage mTo mText r user s =
            Some (Some ''Recipient not in room.'', s')) \<longleftrightarrow>
      map_of (Users (rooms s r)) mTo = None) \<and>
   (handlePrivateMessage mTo mText r user s = None \<longleftrightarrow>
      (\<exists>to. map_of (Users (rooms s r)) mTo = Some to \<and> Sendc (users s to) = Stuck)) \<and>
   (\<forall>s'. handlePrivateMessage mTo mText r user s = Some (None, s') \<longrightarrow>
      (\<exists>to. map_of (Users (rooms s r)) mTo = Some to \<and>
         trace s' = trace s @
           [Lock (Mutex r),
            Send to (PrivateMessage (User.Name (users s user)) [] mText) True,
            Unlock (Mutex r)]))"
  by (auto simp: handlePrivateMessage_eq split: option.splits listener.splits)

subsection \<open>Configurations the server reaches\<close>

lemmas steps = ws_recv_def unmarshal_def handleJoinMessage_def handleLeaveMessage_def
  join_announce_def new_Room_def emit_def set_Name_def set_Users_def sendMessage_def
  pass_error_def Let_def

text \<open>
  alice and bob join the lobby, each through the receive loop of its connection; then
  \<open>WriteJSON\<close> fails in bob's writer, on the Join announcement it has taken. bob is still
  a member of the lobby, and the body of bob's \<open>ws\<close> has not yet taken the error.
\<close>

lemma writer_of_bob_fails:
  "\<exists>s cs. run unmarshal (s, cs) \<and>
     vars (cs 2) = \<lparr>room = Some 0, hasJoined = True\<rparr> \<and>
     reader (cs 2) = AtRead \<and> ending (cs 2) = Waiting \<and>
     users s 2 = \<lparr>User.Name = ''alice'', Sendc = Receiving\<rparr> \<and>
     users s 3 = \<lparr>User.Name = ''bob'', Sendc = Stuck\<rparr> \<and>
     rooms s 0 = \<lparr>Room.Name = ''lobby'', Users = [(''alice'', 2), (''bob'', 3)]\<rparr>"
proof -
  let ?c = "\<lparr>vars = \<lparr>room = None, hasJoined = False\<rparr>, reader = AtRead,
             errc = False, ending = Waiting\<rparr> :: SpecificMessage conn"
  let ?cs0 = "\<lambda>u::uref. ?c"
  let ?ja = "\<lparr>Type = TypeJoinMessage, Raw = JoinMessage ''lobby'' ''alice''\<rparr>"
  let ?jb = "\<lparr>Type = TypeJoinMessage, Raw = JoinMessage ''lobby'' ''bob''\<rparr>"
  let ?in = "\<lparr>room = Some 0, hasJoined = True\<rparr>"
  let ?s1 = "\<lparr>users = (\<lambda>_. \<lparr>User.Name = [], Sendc = Receiving\<rparr>)
                 (2 := \<lparr>User.Name = ''alice'', Sendc = Receiving\<rparr>),
               rooms = (\<lambda>_. \<lparr>Room.Name = [], Users = []\<rparr>)
                 (0 := \<lparr>Room.Name = ''lobby'', Users = [(''alice'', 2)]\<rparr>),
               nextRoom = 1, allRooms = [(''lobby'', 0)],
               trace = [Lock allRoomsMutex, Send 2 (RosterMessage []) True,
                        Send 2 (JoinMessage [] ''alice'') True, Unlock allRoomsMutex]\<rparr>"
  let ?s2 = "lobby\<lparr>trace := trace ?s1 @
               [Lock allRoomsMutex, Lock (Mutex 0), Unlock (Mutex 0),
                Send 3 (RosterMessage [''alice'']) True,
                Send 2 (JoinMessage [] ''bob'') True,
                Send 3 (JoinMessage [] ''bob'') True, Unlock allRoomsMutex]\<rparr>"
  let ?s3 = "?s2\<lparr>users := (users ?s2)(3 := (users ?s2 3)\<lparr>Sendc := Stuck\<rparr>)\<rparr>"
  let ?cs2 = "?cs0(2 := ?c\<lparr>vars := ?in\<rparr>)"
  let ?cs4 = "?cs2(3 := ?c\<lparr>vars := ?in\<rparr>)"
  have r0: "run unmarshal (start, ?cs0)" by (rule run.init)
  have r1: "run unmarshal (start, ?cs0(2 := ?c\<lparr>reader := Got ?ja\<rparr>))"
    using run.read [OF r0, of 2 ?ja] by simp
  have "ws_recv unmarshal 2 ?ja \<lparr>room = None, hasJoined = False\<rparr> start =
      Some (Continue ?in, ?s1)"
    by (simp add: steps start_def)
  from run.recv [OF r1, of 2 ?ja ?in ?s1] this
  have r2: "run unmarshal (?s1, ?cs2)" by simp
  have r3: "run unmarshal (?s1, ?cs2(3 := ?c\<lparr>reader := Got ?jb\<rparr>))"
    using run.read [OF r2, of 3 ?jb] by simp
  have "ws_recv unmarshal 3 ?jb \<lparr>room = None, hasJoined = False\<rparr> ?s1 =
      Some (Continue ?in, ?s2)"
    by (simp add: steps lobby_def)
  from run.recv [OF r3, of 3 ?jb ?in ?s2] this
  have r4: "run unmarshal (?s2, ?cs4)" by simp
  have "Sendc (users ?s2 3) = Receiving"
    and "Send 3 (JoinMessage [] ''bob'') True \<in> set (trace ?s2)"
    by (simp_all add: lobby_def)
  from run.write_error [OF r4 this]
  have r5: "run unmarshal (?s3, ?cs4(3 := (?cs4 3)\<lparr>errc := True\<rparr>))" .
  show ?thesis
    apply (rule exI [of _ ?s3])
    apply (rule exI [of _ "?cs4(3 := (?cs4 3)\<lparr>errc := True\<rparr>)"])
    using r5 apply (simp add: lobby_def)
    done
qed

text \<open>
  alice opens the lobby, and her receive loop reads a Leave message. Before the loop
  handles it, \<open>WriteJSON\<close> fails in alice's writer, on the Join announcement; the body of
  her \<open>ws\<close> takes the error from \<open>errc\<close>, finds \<open>hasJoined\<close> set and calls
  \<open>handleLeaveMessage\<close> (line 192), which empties the room at address 0 and takes it out
  of the registry. Then bob joins "lobby": the name is not registered, so a room is
  made at address 1. alice's receive loop still holds the Leave message, with
  \<open>hasJoined\<close> set and \<open>room\<close> the room at address 0.
\<close>

lemma lobby_opened_again:
  "\<exists>s cs. run unmarshal (s, cs) \<and>
     vars (cs 2) = \<lparr>room = Some 0, hasJoined = True\<rparr> \<and>
     reader (cs 2) = Got \<lparr>Type = TypeLeaveMessage, Raw = LeaveMessage []\<rparr> \<and>
     ending (cs 2) = Finished \<and>
     vars (cs 3) = \<lparr>room = Some 1, hasJoined = True\<rparr> \<and>
     users s 2 = \<lparr>User.Name = ''alice'', Sendc = Stuck\<rparr> \<and>
     users s 3 = \<lparr>User.Name = ''bob'', Sendc = Receiving\<rparr> \<and>
     rooms s 0 = \<lparr>Room.Name = ''lobby'', Users = []\<rparr> \<and>
     rooms s 1 = \<lparr>Room.Name = ''lobby'', Users = [(''bob'', 3)]\<rparr> \<and>
     nextRoom s = 2 \<and> allRooms s = [(''lobby'', 1)]"
proof -
  let ?c = "\<lparr>vars = \<lparr>room = None, hasJoined = False\<rparr>, reader = AtRead,
             errc = False, ending = Waiting\<rparr> :: SpecificMessage conn"
  let ?cs0 = "\<lambda>u::uref. ?c"
  let ?ja = "\<lparr>Type = TypeJoinMessage, Raw = JoinMessage ''lobby'' ''alice''\<rparr>"
  let ?jb = "\<lparr>Type = TypeJoinMessage, Raw = JoinMessage ''lobby'' ''bob''\<rparr>"
  let ?lv = "\<lparr>Type = TypeLeaveMessage, Raw = LeaveMessage []\<rparr>"
  let ?in0 = "\<lparr>room = Some 0, hasJoined = True\<rparr>"
  let ?in1 = "\<lparr>room = Some 1, hasJoined = True\<rparr>"
  let ?t1 = "[Lock allRoomsMutex, Send 2 (RosterMessage []) True,
              Send 2 (JoinMessage [] ''alice'') True, Unlock allRoomsMutex]"
  let ?t2 = "?t1 @ [Lock allRoomsMutex, Lock (Mutex 0), Unlock (Mutex 0), Unlock allRoomsMutex]"
  let ?t3 = "?t2 @ [Lock allRoomsMutex, Send 3 (RosterMessage []) True,
              Send 3 (JoinMessage [] ''bob'') True, Unlock allRoomsMutex]"
  let ?s1 = "\<lparr>users = (\<lambda>_. \<lparr>User.Name = [], Sendc = Receiving\<rparr>)
                 (2 := \<lparr>User.Name = ''alice'', Sendc = Receiving\<rparr>),
               rooms = (\<lambda>_. \<lparr>Room.Name = [], Users = []\<rparr>)
                 (0 := \<lparr>Room.Name = ''lobby'', Users = [(''alice'', 2)]\<rparr>),
               nextRoom = 1, allRooms = [(''lobby'', 0)], trace = ?t1\<rparr>"
  let ?s2 = "?s1\<lparr>users := (users ?s1)(2 := (users ?s1 2)\<lparr>Sendc := Stuck\<rparr>)\<rparr>"
  let ?s3 = "\<lparr>users = (\<lambda>_. \<lparr>User.Name = [], Sendc = Receiving\<rparr>)
                 (2 := \<lparr>User.Name = ''alice'', Sendc = Stuck\<rparr>),
               rooms = (\<lambda>_. \<lparr>Room.Name = [], Users = []\<rparr>)
                 (0 := \<lparr>Room.Name = ''lobby'', Users = []\<rparr>),
               nextRoom = 1, allRooms = [], trace = ?t2\<rparr>"
  let ?s4 = "\<lparr>users = (\<lambda>_. \<lparr>User.Name = [], Sendc = Receiving\<rparr>)
                 (2 := \<lparr>User.Name = ''alice'', Sendc = Stuck\<rparr>,
                  3 := \<lparr>User.Name = ''bob'', Sendc = Receiving\<rparr>),
               rooms = (\<lambda>_. \<lparr>Room.Name = [], Users = []\<rparr>)
                 (0 := \<lparr>Room.Name = ''lobby'', Users = []\<rparr>,
                  1 := \<lparr>Room.Name = ''lobby'', Users = [(''bob'', 3)]\<rparr>),
               nextRoom = 2, allRooms = [(''lobby'', 1)], trace = ?t3\<rparr>"
  let ?a3 = "?c\<lparr>vars := ?in0, reader := Got ?lv\<rparr>"
  let ?a6 = "?a3\<lparr>errc := True, ending := Finished\<rparr>"
  have r0: "run unmarshal (start, ?cs0)" by (rule run.init)
  have r1: "run unmarshal (start, ?cs0(2 := ?c\<lparr>reader := Got ?ja\<rparr>))"
    using run.read [OF r0, of 2 ?ja] by simp
  have "ws_recv unmarshal 2 ?ja \<lparr>room = None, hasJoined = False\<rparr> start =
      Some (Continue ?in0, ?s1)"
    by (simp add: steps start_def)
  from run.recv [OF r1, of 2 ?ja ?in0 ?s1] this
  have r2: "run unmarshal (?s1, ?cs0(2 := ?c\<lparr>vars := ?in0\<rparr>))" by simp
  have r3: "run unmarshal (?s1, ?cs0(2 := ?a3))"
    using run.read [OF r2, of 2 ?lv] by simp
  have "Sendc (users ?s1 2) = Receiving"
    and "Send 2 (JoinMessage [] ''alice'') True \<in> set (trace ?s1)"
    by simp_all
  from run.write_error [OF r3 this]
  have r4: "run unmarshal (?s2, ?cs0(2 := ?a3\<lparr>errc := True\<rparr>))" by simp
  have r5: "run unmarshal (?s2, ?cs0(2 := ?a3\<lparr>errc := True, ending := Signalled\<rparr>))"
    using run.signal [OF r4, of 2] by simp
  have "handleLeaveMessage 0 2 ?s2 = Some ?s3"
    by (simp add: steps)
  from run.leave_joined [OF r5, of 2 0 ?s3] this
  have r6: "run unmarshal (?s3, ?cs0(2 := ?a6))" by simp
  have r7: "run unmarshal (?s3, ?cs0(2 := ?a6, 3 := ?c\<lparr>reader := Got ?jb\<rparr>))"
    using run.read [OF r6, of 3 ?jb] by simp
  have "ws_recv unmarshal 3 ?jb \<lparr>room = None, hasJoined = False\<rparr> ?s3 =
      Some (Continue ?in1, ?s4)"
    by (simp add: steps)
  from run.recv [OF r7, of 3 ?jb ?in1 ?s4] this
  have r8: "run unmarshal (?s4, ?cs0(2 := ?a6, 3 := ?c\<lparr>vars := ?in1\<rparr>))" by simp
  show ?thesis
    apply (rule exI [of _ ?s4])
    apply (rule exI [of _ "?cs0(2 := ?a6, 3 := ?c\<lparr>vars := ?in1\<rparr>)"])
    using r8 apply simp
    done
qed

section \<open>The claims\<close>

subsection \<open>Group messages\<close>

text \<open>
  C7: a group message is to succeed for every input and to reach every member of the
  room, the sender included. \<open>handleGroupMessage\<close> has no error result, and it reaches
  every member whenever every send resolves (\<open>handleGroupMessage_resolving\<close>). But the
  server reaches a configuration in which the call does not return: alice and bob are
  in the lobby, and bob's writer has returned after a failed \<open>WriteJSON\<close> (lines 176 to
  180), which puts the error on \<open>errc\<close> and leaves \<open>Leavec\<close> open, although the comment
  on \<open>Leavec\<close> (lines 18 and 19) has the writer close it before exiting. In
  \<open>sendMessage\<close> to bob neither case of the \<open>select\<close> can proceed any more, so alice's
  \<open>handleGroupMessage\<close> stays in its broadcast with the room's mutex held, and the
  iteration of her receive loop that called it has no result either.
\<close>

theorem group_blocks_on_stuck_member:
  "\<exists>s cs. run unmarshal (s, cs) \<and>
     reader (cs 2) = AtRead \<and> ending (cs 2) = Waiting \<and>
     vars (cs 2) = \<lparr>room = Some 0, hasJoined = True\<rparr> \<and>
     Users (rooms s 0) = [(''alice'', 2), (''bob'', 3)] \<and>
     Sendc (users s 2) = Receiving \<and> Sendc (users s 3) = Stuck \<and>
     handleGroupMessage ''hi'' 0 2 s = None \<and>
     ws_recv unmarshal 2 \<lparr>Type = TypeGroupMessage, Raw = GroupMessage [] ''hi''\<rparr>
       (vars (cs 2)) s = None"
proof -
  from writer_of_bob_fails obtain s cs where r: "run unmarshal (s, cs)"
    and c: "vars (cs 2) = \<lparr>room = Some 0, hasJoined = True\<rparr>"
      "reader (cs 2) = AtRead" "ending (cs 2) = Waiting"
    and u: "users s 2 = \<lparr>User.Name = ''alice'', Sendc = Receiving\<rparr>"
      "users s 3 = \<lparr>User.Name = ''bob'', Sendc = Stuck\<rparr>"
    and m: "rooms s 0 = \<lparr>Room.Name = ''lobby'', Users = [(''alice'', 2), (''bob'', 3)]\<rparr>"
    by blast
  have g: "handleGroupMessage ''hi'' 0 2 s = None"
    by (simp add: handleGroupMessage_eq resolves_def u m)
  have "ws_recv unmarshal 2 \<lparr>Type = TypeGroupMessage, Raw = GroupMessage [] ''hi''\<rparr>
       (vars (cs 2)) s = None"
    by (simp add: ws_recv_def unmarshal_def c g)
  with r c u m g show ?thesis
    by (intro exI [of _ s] exI [of _ cs] conjI) simp_all
qed

subsection \<open>Private messages\<close>

text \<open>
  C3: a private message is to succeed when \<open>msg.To\<close> is a member and the delivery
  completes, to be answered with a delivery-failure error when \<open>msg.To\<close> is a member and
  the delivery does not complete, and with a recipient-not-found error when \<open>msg.To\<close> is
  no member. \<open>handlePrivateMessage\<close> gives these answers when the recipient's writer
  takes the message, when the recipient's \<open>Leavec\<close> is closed, and when \<open>msg.To\<close> is no
  key (\<open>handlePrivateMessage_outcomes\<close>). But the server reaches a configuration in which
  the recipient is a member, the delivery does not complete, and no error is reported,
  because the call does not return: bob's writer has returned after a failed
  \<open>WriteJSON\<close> (lines 176 to 180) without closing \<open>Leavec\<close>, which the comment on
  \<open>Leavec\<close> (lines 18 and 19) has it close before exiting. alice's
  \<open>handlePrivateMessage\<close> to bob stays in \<open>sendMessage\<close> with the room's mutex held, and
  the iteration of her receive loop that called it has no result either.
\<close>

theorem private_blocks_on_stuck_recipient:
  "\<exists>s cs. run unmarshal (s, cs) \<and>
     reader (cs 2) = AtRead \<and> ending (cs 2) = Waiting \<and>
     vars (cs 2) = \<lparr>room = Some 0, hasJoined = True\<rparr> \<and>
     map_of (Users (rooms s 0)) ''bob'' = Some 3 \<and> Sendc (users s 3) = Stuck \<and>
     handlePrivateMessage ''bob'' ''hey'' 0 2 s = None \<and>
     ws_recv unmarshal 2 \<lparr>Type = TypePrivateMessage, Raw = PrivateMessage [] ''bob'' ''hey''\<rparr>
       (vars (cs 2)) s = None"
proof -
  from writer_of_bob_fails obtain s cs where r: "run unmarshal (s, cs)"
    and c: "vars (cs 2) = \<lparr>room = Some 0, hasJoined = True\<rparr>"
      "reader (cs 2) = AtRead" "ending (cs 2) = Waiting"
    and u: "users s 2 = \<lparr>User.Name = ''alice'', Sendc = Receiving\<rparr>"
      "users s 3 = \<lparr>User.Name = ''bob'', Sendc = Stuck\<rparr>"
    and m: "rooms s 0 = \<lparr>Room.Name = ''lobby'', Users = [(''alice'', 2), (''bob'', 3)]\<rparr>"
    by blast
  have g: "handlePrivateMessage ''bob'' ''hey'' 0 2 s = None"
    by (simp add: handlePrivateMessage_eq u m)
  have "ws_recv unmarshal 2 \<lparr>Type = TypePrivateMessage, Raw = PrivateMessage [] ''bob'' ''hey''\<rparr>
       (vars (cs 2)) s = None"
    by (simp add: ws_recv_def unmarshal_def c g)
  with r c u m g show ?thesis
    by (intro exI [of _ s] exI [of _ cs] conjI) simp_all
qed

text \<open>
  C10: the lookup of \<open>handlePrivateMessage\<close> does not set the sender apart. A user who
  is in the room under its own name and addresses a private message to that name is
  never answered "Recipient not in room."; when its writer takes messages, the message
  is delivered to the user itself, with its own name as \<open>From\<close>.
\<close>

theorem private_to_own_name:
  "map_of (Users (rooms s r)) (User.Name (users s user)) = Some user \<Longrightarrow>
   (\<forall>s'. handlePrivateMessage (User.Name (users s user)) mText r user s \<noteq>
      Some (Some ''Recipient not in room.'', s')) \<and>
   (Sendc (users s user) = Receiving \<longrightarrow>
      handlePrivateMessage (User.Name (users s user)) mText r user s =
        Some (None, s\<lparr>trace := trace s @
          [Lock (Mutex r),
           Send user (PrivateMessage (User.Name (users s user)) [] mText) True,
           Unlock (Mutex r)]\<rparr>))"
  by (auto simp: handlePrivateMessage_eq split: listener.splits)

text \<open>alice writes to alice.\<close>

theorem private_to_own_name_witness:
  "map_of (Users (rooms lobby 0)) (User.Name (users lobby 2)) = Some 2 \<and>
   Sendc (users lobby 2) = Receiving \<and>
   handlePrivateMessage ''alice'' ''note'' 0 2 lobby =
     Some (None, lobby\<lparr>trace :=
       [Lock (Mutex 0), Send 2 (PrivateMessage ''alice'' [] ''note'') True,
        Unlock (Mutex 0)]\<rparr>)"
proof -
  have a: "map_of (Users (rooms lobby 0)) (User.Name (users lobby 2)) = Some 2"
    and b: "Sendc (users lobby 2) = Receiving"
    and c: "User.Name (users lobby 2) = ''alice''"
    by (simp_all add: lobby_fields)
  from private_to_own_name [OF a, of "''note''"] b
  have "handlePrivateMessage (User.Name (users lobby 2)) ''note'' 0 2 lobby =
      Some (None, lobby\<lparr>trace := trace lobby @
          [Lock (Mutex 0),
           Send 2 (PrivateMessage (User.Name (users lobby 2)) [] ''note'') True,
           Unlock (Mutex 0)]\<rparr>)"
    by blast
  then show ?thesis using a b by (simp add: lobby_fields)
qed

subsection \<open>Joining a room\<close>

text \<open>
  C2: \<open>handleJoinMessage\<close> returns an error exactly when the length of \<open>msg.Room\<close> is
  outside 1..128, or the length of \<open>msg.Name\<close> is outside 1..128, or \<open>allRooms\<close> has a
  room under \<open>msg.Room\<close> whose \<open>Users\<close> already has the key \<open>msg.Name\<close>. Whenever it
  returns an error, the registry, every room (its membership with it) and every user
  (the joining user's name with it) are as before the call.
\<close>

theorem join_error_iff:
  "((\<exists>e s'. handleJoinMessage mRoom mName user s = Some (Inl e, s')) \<longleftrightarrow>
      (length mRoom < 1 \<or> 128 < length mRoom \<or> length mName < 1 \<or> 128 < length mName \<or>
       (\<exists>r. map_of (allRooms s) mRoom = Some r \<and> map_of (Users (rooms s r)) mName \<noteq> None))) \<and>
   (\<forall>e s'. handleJoinMessage mRoom mName user s = Some (Inl e, s') \<longrightarrow>
      allRooms s' = allRooms s \<and> rooms s' = rooms s \<and> users s' = users s \<and>
      nextRoom s' = nextRoom s)"
  using handleJoinMessage_rejects [of mRoom mName s user]
    handleJoinMessage_rejected [of mRoom mName user s]
  by blast

text \<open>Scenario 2: a third client asks to join the lobby as alice, a name that is taken.\<close>

theorem join_error_iff_witness:
  "\<exists>e s'. handleJoinMessage ''lobby'' ''alice'' 4 lobby = Some (Inl e, s') \<and>
      allRooms s' = [(''lobby'', 0)] \<and>
      Users (rooms s' 0) = [(''alice'', 2), (''bob'', 3)] \<and>
      User.Name (users s' 4) = []"
proof -
  note th = join_error_iff [of "''lobby''" "''alice''" 4 lobby]
  have "\<exists>r. map_of (allRooms lobby) ''lobby'' = Some r \<and>
      map_of (Users (rooms lobby r)) ''alice'' \<noteq> None"
    by (simp add: lobby_fields)
  with th obtain e s' where a: "handleJoinMessage ''lobby'' ''alice'' 4 lobby = Some (Inl e, s')"
    by blast
  with th have "allRooms s' = allRooms lobby \<and> rooms s' = rooms lobby \<and> users s' = users lobby"
    by blast
  then have "allRooms s' = [(''lobby'', 0)] \<and>
      Users (rooms s' 0) = [(''alice'', 2), (''bob'', 3)] \<and> User.Name (users s' 4) = []"
    by (simp add: lobby_def)
  with a show ?thesis by blast
qed

text \<open>
  C4: on every successful join, \<open>user.Name\<close> is the nickname asked for, and exactly one
  \<open>RosterMessage\<close> is sent, to the joining user; its list holds the keys of the room's
  \<open>Users\<close> after the insertion other than the nickname itself, and is empty when the
  room was created by this join.
\<close>

theorem join_sends_roster:
  assumes "handleJoinMessage mRoom mName user s = Some (Inr r, s')"
  shows "User.Name (users s' user) = mName \<and>
   (\<exists>names. filter is_roster (since s s') =
        [Send user (RosterMessage names) (Sendc (users s user) = Receiving)] \<and>
      set names = fst ` set (Users (rooms s' r)) - {mName} \<and>
      (map_of (allRooms s) mRoom = None \<longrightarrow> names = []))"
proof -
  note m = handleJoinMessage_membership [OF assms]
  let ?names = "filter (\<lambda>name. name \<noteq> mName) (map fst (Users (rooms s' r)))"
  have a: "filter is_roster (since s s') =
        [Send user (RosterMessage ?names) (Sendc (users s user) = Receiving)]"
    by (cases "map_of (allRooms s) mRoom") (simp_all add: m(4) join_events_def)
  have b: "set ?names = fst ` set (Users (rooms s' r)) - {mName}"
    by auto
  have c: "map_of (allRooms s) mRoom = None \<longrightarrow> ?names = []"
    by (simp add: m(1) occupants_def)
  from a b c have "\<exists>names. filter is_roster (since s s') =
        [Send user (RosterMessage names) (Sendc (users s user) = Receiving)] \<and>
      set names = fst ` set (Users (rooms s' r)) - {mName} \<and>
      (map_of (allRooms s) mRoom = None \<longrightarrow> names = [])"
    by (intro exI [of _ ?names] conjI)
  with m(3) show ?thesis ..
qed

text \<open>
  Scenario 1: alice opens the lobby and gets the empty roster; a later client joining the
  lobby of alice and bob gets both names.
\<close>

theorem join_sends_roster_witness:
  "(\<exists>s'. handleJoinMessage ''lobby'' ''alice'' 2 start = Some (Inr 0, s') \<and>
      User.Name (users s' 2) = ''alice'' \<and>
      filter is_roster (since start s') = [Send 2 (RosterMessage []) True]) \<and>
   (\<exists>s' names. handleJoinMessage ''lobby'' ''carol'' 4 lobby = Some (Inr 0, s') \<and>
      User.Name (users s' 4) = ''carol'' \<and>
      filter is_roster (since lobby s') = [Send 4 (RosterMessage names) True] \<and>
      set names = {''alice'', ''bob''})"
proof -
  from alice_opens obtain s1
    where a: "handleJoinMessage ''lobby'' ''alice'' 2 start = Some (Inr 0, s1)" ..
  from join_sends_roster [OF a] obtain names1 where a1: "User.Name (users s1 2) = ''alice''"
    and a2: "filter is_roster (since start s1) =
           [Send 2 (RosterMessage names1) (Sendc (users start 2) = Receiving)]"
    and a3: "map_of (allRooms start) ''lobby'' = None \<longrightarrow> names1 = []"
    by (elim conjE exE)
  from a3 have "names1 = []" by (simp add: start_def)
  with a2 have a4: "filter is_roster (since start s1) = [Send 2 (RosterMessage []) True]"
    by (simp add: start_def)
  from carol_joins obtain s2
    where b: "handleJoinMessage ''lobby'' ''carol'' 4 lobby = Some (Inr 0, s2)" ..
  have u: "Users (rooms s2 0) = [(''alice'', 2), (''bob'', 3), (''carol'', 4)]"
    by (simp add: handleJoinMessage_membership(1) [OF b] occupants_def lobby_fields)
  from join_sends_roster [OF b] obtain names2 where b1: "User.Name (users s2 4) = ''carol''"
    and b2: "filter is_roster (since lobby s2) =
           [Send 4 (RosterMessage names2) (Sendc (users lobby 4) = Receiving)]"
    and b3: "set names2 = fst ` set (Users (rooms s2 0)) - {''carol''}"
    by (elim conjE exE)
  from b2 have b4: "filter is_roster (since lobby s2) = [Send 4 (RosterMessage names2) True]"
    by (simp add: lobby_fields)
  have b5: "set names2 = {''alice'', ''bob''}"
    unfolding b3 u by (simp add: insert_Diff_if)
  from a a1 a4 have "\<exists>s'. handleJoinMessage ''lobby'' ''alice'' 2 start = Some (Inr 0, s') \<and>
      User.Name (users s' 2) = ''alice'' \<and>
      filter is_roster (since start s') = [Send 2 (RosterMessage []) True]"
    by (intro exI [of _ s1] conjI)
  moreover from b b1 b4 b5
  have "\<exists>s' names. handleJoinMessage ''lobby'' ''carol'' 4 lobby = Some (Inr 0, s') \<and>
      User.Name (users s' 4) = ''carol'' \<and>
      filter is_roster (since lobby s') = [Send 4 (RosterMessage names) True] \<and>
      set names = {''alice'', ''bob''}"
    by (intro exI [of _ s2] exI [of _ names2] conjI)
  ultimately show ?thesis ..
qed

text \<open>
  C5: after a successful join, the \<open>JoinMessage\<close> announcing the nickname is sent once to
  each entry of the room's \<open>Users\<close> as it stands after the insertion (the membership
  before, updated with the nickname); the joining user's own entry is one of them, so
  the announcement is sent to the joining user too.
\<close>

theorem join_announced_to_all:
  assumes "handleJoinMessage mRoom mName user s = Some (Inr r, s')"
  shows "Users (rooms s' r) = AList.update mName user (occupants s mRoom) \<and>
   filter is_join (since s s') =
     map (attempt s (JoinMessage [] mName)) (Users (rooms s' r)) \<and>
   (mName, user) \<in> set (Users (rooms s' r)) \<and>
   attempt s (JoinMessage [] mName) (mName, user) \<in> set (since s s')"
proof -
  note m = handleJoinMessage_membership [OF assms]
  have a: "filter is_join (since s s') =
     map (attempt s (JoinMessage [] mName)) (Users (rooms s' r))"
    by (cases "map_of (allRooms s) mRoom") (simp_all add: m(4) join_events_def)
  have b: "(mName, user) \<in> set (Users (rooms s' r))"
    unfolding m(1) by (rule update_entry [OF m(2)])
  then have "attempt s (JoinMessage [] mName) (mName, user)
      \<in> attempt s (JoinMessage [] mName) ` set (Users (rooms s' r))"
    by (rule imageI)
  then have c: "attempt s (JoinMessage [] mName) (mName, user) \<in> set (since s s')"
    unfolding m(4) join_events_def by simp
  from m(1) a b c show ?thesis by (intro conjI)
qed

text \<open>carol joins the lobby of alice and bob: all three are sent the announcement.\<close>

theorem join_announced_to_all_witness:
  "\<exists>s'. handleJoinMessage ''lobby'' ''carol'' 4 lobby = Some (Inr 0, s') \<and>
      Users (rooms s' 0) = [(''alice'', 2), (''bob'', 3), (''carol'', 4)] \<and>
      filter is_join (since lobby s') =
        [Send 2 (JoinMessage [] ''carol'') True, Send 3 (JoinMessage [] ''carol'') True,
         Send 4 (JoinMessage [] ''carol'') True]"
proof -
  from carol_joins obtain s'
    where a: "handleJoinMessage ''lobby'' ''carol'' 4 lobby = Some (Inr 0, s')" ..
  from join_announced_to_all [OF a]
  have b: "Users (rooms s' 0) = AList.update ''carol'' 4 (occupants lobby ''lobby'')"
    and c: "filter is_join (since lobby s') =
      map (attempt lobby (JoinMessage [] ''carol'')) (Users (rooms s' 0))"
    by blast+
  from b have d: "Users (rooms s' 0) = [(''alice'', 2), (''bob'', 3), (''carol'', 4)]"
    by (simp add: occupants_def lobby_fields)
  with c have "filter is_join (since lobby s') =
        [Send 2 (JoinMessage [] ''carol'') True, Send 3 (JoinMessage [] ''carol'') True,
         Send 4 (JoinMessage [] ''carol'') True]"
    by (simp add: attempt_def lobby_fields)
  with a d show ?thesis by blast
qed

subsection \<open>Leaving a room\<close>

text \<open>
  C6: \<open>handleLeaveMessage\<close> has no error result. When it returns, \<open>user.Name\<close> has been
  deleted from the room's \<open>Users\<close>, and afterwards, under both mutexes, a
  \<open>LeaveMessage\<close> with that name has been sent once to each remaining entry and to
  nobody else: the name is no key any more, and a user that was in the room under no
  other name is sent nothing. When \<open>user.Name\<close> was no key, \<open>Users\<close> is unchanged and
  the message still goes to every entry. The call returns exactly when every send to a
  remaining member resolves.
\<close>

theorem leave_announced_to_remaining:
  "(\<forall>s'. handleLeaveMessage r user s = Some s' \<longrightarrow>
      Users (rooms s' r) = AList.delete (User.Name (users s user)) (Users (rooms s r)) \<and>
      User.Name (users s user) \<notin> fst ` set (Users (rooms s' r)) \<and>
      since s s' = [Lock allRoomsMutex, Lock (Mutex r)] @
        map (attempt s (LeaveMessage (User.Name (users s user)))) (Users (rooms s' r)) @
        [Unlock (Mutex r), Unlock allRoomsMutex] \<and>
      (map_of (Users (rooms s r)) (User.Name (users s user)) = None \<longrightarrow>
         Users (rooms s' r) = Users (rooms s r)) \<and>
      ((\<forall>name. (name, user) \<in> set (Users (rooms s r)) \<longrightarrow> name = User.Name (users s user)) \<longrightarrow>
         (\<forall>m ok. Send user m ok \<notin> set (since s s')))) \<and>
   ((\<exists>s'. handleLeaveMessage r user s = Some s') \<longleftrightarrow>
      resolves s (AList.delete (User.Name (users s user)) (Users (rooms s r))))"
proof (intro conjI allI impI)
  show "(\<exists>s'. handleLeaveMessage r user s = Some s') \<longleftrightarrow>
      resolves s (AList.delete (User.Name (users s user)) (Users (rooms s r)))"
    by (simp add: handleLeaveMessage_eq Let_def)
next
  fix s'
  assume h: "handleLeaveMessage r user s = Some s'"
  note f = handleLeaveMessage_Some [OF h]
  show "Users (rooms s' r) = AList.delete (User.Name (users s user)) (Users (rooms s r))"
    by (rule f(1))
  show "User.Name (users s user) \<notin> fst ` set (Users (rooms s' r))"
    unfolding f(1) by (rule delete_notin_dom)
  show "since s s' = [Lock allRoomsMutex, Lock (Mutex r)] @
        map (attempt s (LeaveMessage (User.Name (users s user)))) (Users (rooms s' r)) @
        [Unlock (Mutex r), Unlock allRoomsMutex]"
    by (rule f(2))
  show "Users (rooms s' r) = Users (rooms s r)"
    if "map_of (Users (rooms s r)) (User.Name (users s user)) = None"
  proof -
    from that have "User.Name (users s user) \<notin> fst ` set (Users (rooms s r))"
      by (simp add: map_of_eq_None_iff)
    then show ?thesis unfolding f(1) by (rule delete_id)
  qed
  show "Send user m ok \<notin> set (since s s')"
    if "\<forall>name. (name, user) \<in> set (Users (rooms s r)) \<longrightarrow> name = User.Name (users s user)"
    for m ok
  proof -
    from that have "user \<notin> snd ` set (Users (rooms s' r))"
      unfolding f(1) by (rule delete_removes_user)
    from not_sent_to [OF this] show ?thesis
      unfolding f(2) by simp
  qed
qed

text \<open>Scenario 5: bob leaves the lobby; alice is told, and the lobby keeps alice.\<close>

theorem leave_announced_to_remaining_witness:
  "\<exists>s'. handleLeaveMessage 0 3 lobby = Some s' \<and>
      Users (rooms s' 0) = [(''alice'', 2)] \<and>
      since lobby s' = [Lock allRoomsMutex, Lock (Mutex 0),
                        Send 2 (LeaveMessage ''bob'') True,
                        Unlock (Mutex 0), Unlock allRoomsMutex]"
proof -
  note th = leave_announced_to_remaining [of 0 3 lobby]
  have "resolves lobby (AList.delete (User.Name (users lobby 3)) (Users (rooms lobby 0)))"
    by (simp add: lobby_fields resolves_def)
  moreover from th have "(\<exists>s'. handleLeaveMessage 0 3 lobby = Some s') =
      resolves lobby (AList.delete (User.Name (users lobby 3)) (Users (rooms lobby 0)))"
    by (rule conjunct2)
  ultimately have "\<exists>s'. handleLeaveMessage 0 3 lobby = Some s'"
    by simp
  then obtain s' where a: "handleLeaveMessage 0 3 lobby = Some s'" ..
  with th have b: "Users (rooms s' 0) =
        AList.delete (User.Name (users lobby 3)) (Users (rooms lobby 0))"
    and c: "since lobby s' = [Lock allRoomsMutex, Lock (Mutex 0)] @
        map (attempt lobby (LeaveMessage (User.Name (users lobby 3)))) (Users (rooms s' 0)) @
        [Unlock (Mutex 0), Unlock allRoomsMutex]"
    by simp_all
  from b have d: "Users (rooms s' 0) = [(''alice'', 2)]"
    by (simp add: lobby_fields)
  from c have "since lobby s' = [Lock allRoomsMutex, Lock (Mutex 0),
                        Send 2 (LeaveMessage ''bob'') True,
                        Unlock (Mutex 0), Unlock allRoomsMutex]"
    unfolding d by (simp add: attempt_def lobby_fields)
  with a d show ?thesis by (intro exI [of _ s'] conjI)
qed

subsection \<open>The receive loop\<close>

text \<open>
  C8: the switch of the receive loop looks at \<open>hasJoined\<close> before it calls a handler. A
  Join while \<open>hasJoined\<close> is answered "You have already joined a room."; a Leave, Group
  or Private while not \<open>hasJoined\<close> is answered "You need to join a room to do that.". In
  both cases no handler runs, the answer goes to the connection's own user as an
  \<open>ErrorMessage\<close>, and, the user's writer taking it, the loop goes on with \<open>room\<close> and
  \<open>hasJoined\<close> as they were. A message of any other type puts an error on \<open>errc\<close> and
  ends the loop, whatever the join state.
\<close>

theorem recv_guarded_by_join_state:
  "(Sendc (users s user) = Receiving \<longrightarrow>
      (hasJoined sess \<and> Type msg = TypeJoinMessage \<longrightarrow>
         ws_recv js user msg sess s =
           Some (Continue sess,
                 emit (Send user (ErrorMessage ''You have already joined a room.'') True) s)) \<and>
      (\<not> hasJoined sess \<and>
       (Type msg = TypeLeaveMessage \<or> Type msg = TypeGroupMessage \<or>
        Type msg = TypePrivateMessage) \<longrightarrow>
         ws_recv js user msg sess s =
           Some (Continue sess,
                 emit (Send user (ErrorMessage ''You need to join a room to do that.'') True) s))) \<and>
   (\<forall>t. Type msg = TypeOther t \<longrightarrow>
      ws_recv js user msg sess s = Some (Return (UnknownMessageType (TypeOther t)) sess, s))"
  by (auto simp: ws_recv_def pass_error_Receiving)

text \<open>
  A Group message before any join, a second Join from alice, and a message of an unknown
  type.
\<close>

theorem recv_guarded_by_join_state_witness:
  "ws_recv \<lparr>decodeJoin = (\<lambda>_. None), decodeGroup = (\<lambda>_. None), decodePrivate = (\<lambda>_. None)\<rparr>
      2 \<lparr>Type = TypeGroupMessage, Raw = ()\<rparr> \<lparr>room = None, hasJoined = False\<rparr> start =
     Some (Continue \<lparr>room = None, hasJoined = False\<rparr>,
           start\<lparr>trace := [Send 2 (ErrorMessage ''You need to join a room to do that.'') True]\<rparr>) \<and>
   ws_recv \<lparr>decodeJoin = (\<lambda>_. None), decodeGroup = (\<lambda>_. None), decodePrivate = (\<lambda>_. None)\<rparr>
      2 \<lparr>Type = TypeJoinMessage, Raw = ()\<rparr> \<lparr>room = Some 0, hasJoined = True\<rparr> lobby =
     Some (Continue \<lparr>room = Some 0, hasJoined = True\<rparr>,
           lobby\<lparr>trace := [Send 2 (ErrorMessage ''You have already joined a room.'') True]\<rparr>) \<and>
   ws_recv \<lparr>decodeJoin = (\<lambda>_. None), decodeGroup = (\<lambda>_. None), decodePrivate = (\<lambda>_. None)\<rparr>
      2 \<lparr>Type = TypeOther ''ping'', Raw = ()\<rparr> \<lparr>room = Some 0, hasJoined = True\<rparr> lobby =
     Some (Return (UnknownMessageType (TypeOther ''ping'')) \<lparr>room = Some 0, hasJoined = True\<rparr>,
           lobby)"
proof -
  let ?js = "\<lparr>decodeJoin = (\<lambda>_::unit. None), decodeGroup = (\<lambda>_. None),
             decodePrivate = (\<lambda>_. None)\<rparr>"
  have a: "Sendc (users start 2) = Receiving" by (simp add: start_def)
  have b: "Sendc (users lobby 2) = Receiving" by (simp add: lobby_fields)
  from recv_guarded_by_join_state
    [of start 2 "\<lparr>room = None, hasJoined = False\<rparr>" "\<lparr>Type = TypeGroupMessage, Raw = ()\<rparr>" ?js] a
  have 1: "ws_recv ?js 2 \<lparr>Type = TypeGroupMessage, Raw = ()\<rparr> \<lparr>room = None, hasJoined = False\<rparr> start =
     Some (Continue \<lparr>room = None, hasJoined = False\<rparr>,
           start\<lparr>trace := [Send 2 (ErrorMessage ''You need to join a room to do that.'') True]\<rparr>)"
    by (simp add: emit_def start_def)
  from recv_guarded_by_join_state
    [of lobby 2 "\<lparr>room = Some 0, hasJoined = True\<rparr>" "\<lparr>Type = TypeJoinMessage, Raw = ()\<rparr>" ?js] b
  have 2: "ws_recv ?js 2 \<lparr>Type = TypeJoinMessage, Raw = ()\<rparr> \<lparr>room = Some 0, hasJoined = True\<rparr> lobby =
     Some (Continue \<lparr>room = Some 0, hasJoined = True\<rparr>,
           lobby\<lparr>trace := [Send 2 (ErrorMessage ''You have already joined a room.'') True]\<rparr>)"
    by (simp add: emit_def lobby_fields)
  from recv_guarded_by_join_state
    [of lobby 2 "\<lparr>room = Some 0, hasJoined = True\<rparr>" "\<lparr>Type = TypeOther ''ping'', Raw = ()\<rparr>" ?js]
  have 3: "ws_recv ?js 2 \<lparr>Type = TypeOther ''ping'', Raw = ()\<rparr> \<lparr>room = Some 0, hasJoined = True\<rparr> lobby =
     Some (Return (UnknownMessageType (TypeOther ''ping'')) \<lparr>room = Some 0, hasJoined = True\<rparr>,
           lobby)"
    by simp
  from 1 2 3 show ?thesis by (intro conjI)
qed

subsection \<open>The order of the locks\<close>

text \<open>
  C9: every call of a handler, and every iteration of the receive loop, that returns
  has kept the locking discipline \<open>lock_order\<close>: \<open>allRoomsMutex\<close> is never acquired
  while a room's mutex is held, and mutexes are released in the reverse order of their
  acquisition. The two operations that touch the registry and a room's membership, a
  join into a room that exists and a leave, lock \<open>allRoomsMutex\<close>, then the room's
  mutex, and unlock the room's mutex, then \<open>allRoomsMutex\<close>.
\<close>

theorem registry_locked_before_room:
  "(\<forall>res s'. handleJoinMessage mRoom mName user s = Some (res, s') \<longrightarrow>
      lock_order [] (since s s') \<and>
      (\<forall>r0. 1 \<le> length mRoom \<and> length mRoom \<le> 128 \<and> 1 \<le> length mName \<and>
            length mName \<le> 128 \<and> map_of (allRooms s) mRoom = Some r0 \<longrightarrow>
         filter is_lock (since s s') =
           [Lock allRoomsMutex, Lock (Mutex r0), Unlock (Mutex r0), Unlock allRoomsMutex])) \<and>
   (\<forall>s'. handleLeaveMessage r user s = Some s' \<longrightarrow>
      lock_order [] (since s s') \<and>
      filter is_lock (since s s') =
        [Lock allRoomsMutex, Lock (Mutex r), Unlock (Mutex r), Unlock allRoomsMutex]) \<and>
   (\<forall>res s'. handleGroupMessage mText r user s = Some (res, s') \<longrightarrow>
      lock_order [] (since s s')) \<and>
   (\<forall>res s'. handlePrivateMessage mTo mText r user s = Some (res, s') \<longrightarrow>
      lock_order [] (since s s')) \<and>
   (\<forall>out s'. ws_recv js user msg sess s = Some (out, s') \<longrightarrow>
      lock_order [] (since s s'))"
proof (intro conjI allI impI)
  fix res s' r0
  assume h: "handleJoinMessage mRoom mName user s = Some (res, s')"
  from join_locks(1) [OF h] show "lock_order [] (since s s')" .
  assume "1 \<le> length mRoom \<and> length mRoom \<le> 128 \<and> 1 \<le> length mName \<and>
            length mName \<le> 128 \<and> map_of (allRooms s) mRoom = Some r0"
  with join_locks(2) [OF h, of r0]
  show "filter is_lock (since s s') =
           [Lock allRoomsMutex, Lock (Mutex r0), Unlock (Mutex r0), Unlock allRoomsMutex]"
    by (rule mp)
next
  fix s'
  assume h: "handleLeaveMessage r user s = Some s'"
  from leave_locks(1) [OF h] show "lock_order [] (since s s')" .
  from leave_locks(2) [OF h] show "filter is_lock (since s s') =
        [Lock allRoomsMutex, Lock (Mutex r), Unlock (Mutex r), Unlock allRoomsMutex]" .
next
  fix res s'
  assume "handleGroupMessage mText r user s = Some (res, s')"
  then show "lock_order [] (since s s')" by (rule group_locks(1))
next
  fix res s'
  assume "handlePrivateMessage mTo mText r user s = Some (res, s')"
  then show "lock_order [] (since s s')" by (rule private_locks(1))
next
  fix out s'
  assume "ws_recv js user msg sess s = Some (out, s')"
  then show "lock_order [] (since s s')" by (rule recv_locks)
qed

text \<open>carol joins the lobby; bob leaves it.\<close>

theorem registry_locked_before_room_witness:
  "(\<exists>res s'. handleJoinMessage ''lobby'' ''carol'' 4 lobby = Some (res, s') \<and>
      filter is_lock (since lobby s') =
        [Lock allRoomsMutex, Lock (Mutex 0), Unlock (Mutex 0), Unlock allRoomsMutex] \<and>
      lock_order [] (since lobby s')) \<and>
   (\<exists>s'. handleLeaveMessage 0 3 lobby = Some s' \<and>
      filter is_lock (since lobby s') =
        [Lock allRoomsMutex, Lock (Mutex 0), Unlock (Mutex 0), Unlock allRoomsMutex] \<and>
      lock_order [] (since lobby s'))"
proof -
  from carol_joins obtain s1
    where a: "handleJoinMessage ''lobby'' ''carol'' 4 lobby = Some (Inr 0, s1)" ..
  from bob_leaves obtain s2 where b: "handleLeaveMessage 0 3 lobby = Some s2" ..
  note th = registry_locked_before_room
    [where mRoom = "''lobby''" and mName = "''carol''" and user = 4 and s = lobby]
  note th' = registry_locked_before_room [where r = 0 and user = 3 and s = lobby]
  have c: "1 \<le> length ''lobby'' \<and> length ''lobby'' \<le> 128 \<and> 1 \<le> length ''carol'' \<and>
      length ''carol'' \<le> 128 \<and> map_of (allRooms lobby) ''lobby'' = Some 0"
    by (simp add: lobby_fields)
  note j = th [THEN conjunct1, THEN spec, THEN spec, THEN mp, OF a]
  note j1 = j [THEN conjunct1] and j2 = j [THEN conjunct2, THEN spec, THEN mp, OF c]
  note l = th' [THEN conjunct2, THEN conjunct1, THEN spec, THEN mp, OF b]
  from a j1 j2
  have 1: "\<exists>res s'. handleJoinMessage ''lobby'' ''carol'' 4 lobby = Some (res, s') \<and>
      filter is_lock (since lobby s') =
        [Lock allRoomsMutex, Lock (Mutex 0), Unlock (Mutex 0), Unlock allRoomsMutex] \<and>
      lock_order [] (since lobby s')"
    by (intro exI [of _ "Inr 0"] exI [of _ s1] conjI)
  from b l [THEN conjunct2] l [THEN conjunct1]
  have 2: "\<exists>s'. handleLeaveMessage 0 3 lobby = Some s' \<and>
      filter is_lock (since lobby s') =
        [Lock allRoomsMutex, Lock (Mutex 0), Unlock (Mutex 0), Unlock allRoomsMutex] \<and>
      lock_order [] (since lobby s')"
    by (intro exI [of _ s2] conjI)
  from 1 2 show ?thesis ..
qed

subsection \<open>The lifecycle of rooms\<close>

text \<open>
  C1: a room is to be in the registry exactly when it has a member: \<open>lifecycle\<close>. A
  join keeps it (\<open>join_lifecycle\<close>, \<open>join_registers\<close>), and so does a leave from a room
  that has a member, which takes the room out of the registry in the same call if it
  empties it (\<open>leave_lifecycle\<close>). But \<open>ws\<close> can call \<open>handleLeaveMessage\<close> twice for
  one join. Its last lines (188 to 193) run as soon as an error is on \<open>errc\<close>; when the
  error came from the writer, the receive loop is still running with \<open>hasJoined\<close> set,
  and it handles a Leave message it has read (lines 111 to 120). The second call finds
  the room empty and deletes the entry of \<open>allRooms\<close> under \<open>room.Name\<close> (lines 265 to
  267), whichever room that entry leads to. In the configuration below, which the
  server reaches and in which \<open>lifecycle\<close> holds, it leads to the room at address 1 that
  bob has opened under the name "lobby" after alice's first leave. alice's second leave
  returns, and in the configuration reached bob's room has bob as its member and is
  not in the registry.
\<close>

theorem second_leave_unregisters_room:
  "\<exists>s cs s'. run unmarshal (s, cs) \<and> lifecycle s \<and>
     ending (cs 2) = Finished \<and>
     reader (cs 2) = Got \<lparr>Type = TypeLeaveMessage, Raw = LeaveMessage []\<rparr> \<and>
     vars (cs 2) = \<lparr>room = Some 0, hasJoined = True\<rparr> \<and>
     Users (rooms s 0) = [] \<and> allRooms s = [(''lobby'', 1)] \<and>
     Users (rooms s 1) = [(''bob'', 3)] \<and>
     handleLeaveMessage 0 2 s = Some s' \<and>
     allRooms s' = [] \<and> Users (rooms s' 1) = [(''bob'', 3)] \<and>
     run unmarshal (set_Name 2 [] s',
       cs(2 := (cs 2)\<lparr>vars := \<lparr>room = None, hasJoined = False\<rparr>, reader := AtRead\<rparr>)) \<and>
     \<not> lifecycle (set_Name 2 [] s')"
proof -
  let ?lv = "\<lparr>Type = TypeLeaveMessage, Raw = LeaveMessage []\<rparr>"
  from lobby_opened_again obtain s cs where r: "run unmarshal (s, cs)"
    and c: "vars (cs 2) = \<lparr>room = Some 0, hasJoined = True\<rparr>"
      "reader (cs 2) = Got ?lv" "ending (cs 2) = Finished"
    and u: "users s 2 = \<lparr>User.Name = ''alice'', Sendc = Stuck\<rparr>"
      "users s 3 = \<lparr>User.Name = ''bob'', Sendc = Receiving\<rparr>"
    and m: "rooms s 0 = \<lparr>Room.Name = ''lobby'', Users = []\<rparr>"
      "rooms s 1 = \<lparr>Room.Name = ''lobby'', Users = [(''bob'', 3)]\<rparr>"
    and n: "nextRoom s = 2" and a: "allRooms s = [(''lobby'', 1)]"
    by blast
  from m have m': "rooms s (Suc 0) = \<lparr>Room.Name = ''lobby'', Users = [(''bob'', 3)]\<rparr>"
    by simp
  have inv: "lifecycle s"
    by (simp add: lifecycle_def n a m m' upt_2)
  have "\<exists>s'. handleLeaveMessage 0 2 s = Some s'"
    by (simp add: handleLeaveMessage_eq Let_def u m resolves_def)
  then obtain s' where h: "handleLeaveMessage 0 2 s = Some s'" ..
  note f = handleLeaveMessage_Some [OF h]
  from f(1) have u0: "Users (rooms s' 0) = []" by (simp add: m)
  from f(5) [of 1] have u1: "Users (rooms s' 1) = [(''bob'', 3)]" by (simp add: m')
  from f(7) u0 have reg: "allRooms s' = []" by (simp add: a m)
  from f(4) have n': "nextRoom s' = 2" by (simp add: n)
  have "ws_recv unmarshal 2 ?lv (vars (cs 2)) s =
      Some (Continue \<lparr>room = None, hasJoined = False\<rparr>, set_Name 2 [] s')"
    by (simp add: ws_recv_def c h pass_error_def)
  from run.recv [OF r c(2) this]
  have r': "run unmarshal (set_Name 2 [] s',
       cs(2 := (cs 2)\<lparr>vars := \<lparr>room = None, hasJoined = False\<rparr>, reader := AtRead\<rparr>))" .
  from u1 have u1': "Users (rooms s' (Suc 0)) = [(''bob'', 3)]" by simp
  have bad: "\<not> lifecycle (set_Name 2 [] s')"
    by (simp add: lifecycle_def set_Name_def reg n' u0 u1' upt_2)
  from r inv c(3) c(2) c(1) m a h reg u1 r' bad show ?thesis
    by (intro exI [of _ s] exI [of _ cs] exI [of _ s'] conjI) simp_all
qed

end
